theory Spec2Isabelle
  imports Complex_Main "HOL-Library.Multiset"
begin

section \<open>Flow model of boolean query nodes (searchlib/queryeval/flow.h)\<close>

text \<open>
  The header computes with \<^verbatim>\<open>double\<close>. Here a \<^verbatim>\<open>double\<close> is a \<^typ>\<open>real\<close>: every
  product, sum and comparison is exact. Rounding, infinities and NaN are outside this
  model, so each theorem below speaks about the arithmetic the code writes down, not
  about its IEEE-754 rounding. Where rounding decides a statement (the exchange property
  of \<^verbatim>\<open>MinAndCost\<close>), the functions involved are transcribed a second time over
  binary64 values (subsection \<open>Binary64 arithmetic\<close>). \<^verbatim>\<open>size_t\<close> and \<^verbatim>\<open>uint32_t\<close> positions are \<^typ>\<open>nat\<close>
  (no container reaches the wrap-around of either type).
\<close>

subsection \<open>Adapters\<close>

text \<open>
  An adapter is any object offering \<^verbatim>\<open>estimate(child)\<close>, \<^verbatim>\<open>cost(child)\<close> and
  \<^verbatim>\<open>strict_cost(child)\<close>; the template parameter \<^verbatim>\<open>ADAPTER\<close> becomes a record of the
  three member functions.
\<close>

record 'a adapter =
  estimate :: "'a \<Rightarrow> real"
  cost :: "'a \<Rightarrow> real"
  strict_cost :: "'a \<Rightarrow> real"

text \<open>
  \<^verbatim>\<open>DefaultAdapter\<close> forwards to \<^verbatim>\<open>child->estimate()\<close>, \<^verbatim>\<open>child->cost()\<close> and
  \<^verbatim>\<open>child->strict_cost()\<close>. The pointee (a Blueprint) is declared elsewhere; all the
  header needs from it are these three numbers.
\<close>

record child =
  child_estimate :: real
  child_cost :: real
  child_strict_cost :: real

definition DefaultAdapter :: "child adapter" where
  "DefaultAdapter =
     \<lparr>estimate = child_estimate, cost = child_cost, strict_cost = child_strict_cost\<rparr>"

text \<open>
  \<^verbatim>\<open>IndirectAdapter\<close> reads child number \<open>i\<close> of a backing container through another
  adapter. The positions it is given come from \<open>make_index\<close>, hence are in range.
\<close>

definition IndirectAdapter :: "'a adapter \<Rightarrow> 'a list \<Rightarrow> nat adapter" where
  "IndirectAdapter adapter_in data_in =
     \<lparr>estimate = (\<lambda>i. estimate adapter_in (data_in ! i)),
      cost = (\<lambda>i. cost adapter_in (data_in ! i)),
      strict_cost = (\<lambda>i. strict_cost adapter_in (data_in ! i))\<rparr>"

definition make_index :: "'a list \<Rightarrow> nat list" where
  "make_index children = [0..<length children]"

subsection \<open>Ordering policies\<close>

definition MinAndCost :: "'a adapter \<Rightarrow> 'a \<Rightarrow> 'a \<Rightarrow> bool" where
  "MinAndCost adapter a b \<longleftrightarrow>
     (1 - estimate adapter a) * cost adapter b > (1 - estimate adapter b) * cost adapter a"

definition MinOrCost :: "'a adapter \<Rightarrow> 'a \<Rightarrow> 'a \<Rightarrow> bool" where
  "MinOrCost adapter a b \<longleftrightarrow>
     estimate adapter a * cost adapter b > estimate adapter b * cost adapter a"

definition MinOrStrictCost :: "'a adapter \<Rightarrow> 'a \<Rightarrow> 'a \<Rightarrow> bool" where
  "MinOrStrictCost adapter a b \<longleftrightarrow>
     estimate adapter a * strict_cost adapter b > estimate adapter b * strict_cost adapter a"

subsection \<open>Sorting\<close>

text \<open>
  \<^verbatim>\<open>std::sort\<close> belongs to the C++ standard library. Its contract: when the comparator
  is a strict weak ordering on the range, the range is permuted so that no element is
  less (by the comparator) than an element before it; the order of equivalent elements is
  unspecified, and for a comparator that is no strict weak ordering the standard leaves
  the result undefined. It is modelled by one function that meets the contract, insertion
  sort with the given comparator. With ties, or with a comparator outside the contract, an
  implementation may leave another order than this function. The statements below about
  a sorted range use only that it is a permutation without adjacent inversion
  (\<open>mset_std_sort\<close>, \<open>successively_std_sort\<close>); the statements about costs hold for every
  order (\<open>ordered_cost_of_sum\<close>) or for every order without adjacent inversion
  (\<open>sorted_exchange\<close>), whichever function produced it.
\<close>

fun insert_by :: "('a \<Rightarrow> 'a \<Rightarrow> bool) \<Rightarrow> 'a \<Rightarrow> 'a list \<Rightarrow> 'a list" where
  "insert_by lt x [] = [x]"
| "insert_by lt x (y # ys) =
     (if lt y x then y # insert_by lt x ys else x # y # ys)"

fun std_sort :: "('a \<Rightarrow> 'a \<Rightarrow> bool) \<Rightarrow> 'a list \<Rightarrow> 'a list" where
  "std_sort lt [] = []"
| "std_sort lt (x # xs) = insert_by lt x (std_sort lt xs)"

text \<open>\<^verbatim>\<open>flow::sort<ORDER>\<close>; the template template parameter is passed as a function.\<close>

definition flow_sort :: "('a adapter \<Rightarrow> 'a \<Rightarrow> 'a \<Rightarrow> bool) \<Rightarrow> 'a adapter \<Rightarrow> 'a list \<Rightarrow> 'a list" where
  "flow_sort ORDER adapter children = std_sort (ORDER adapter) children"

definition sort_partial ::
  "('a adapter \<Rightarrow> 'a \<Rightarrow> 'a \<Rightarrow> bool) \<Rightarrow> 'a adapter \<Rightarrow> 'a list \<Rightarrow> nat \<Rightarrow> 'a list" where
  "sort_partial ORDER adapter children offset =
     (if length children > offset
      then take offset children @ std_sort (ORDER adapter) (drop offset children)
      else children)"

subsection \<open>The three flow classes\<close>

text \<open>
  \<^verbatim>\<open>AndFlow\<close>, \<^verbatim>\<open>OrFlow\<close> and \<^verbatim>\<open>AndNotFlow\<close> have the same three private members
  \<^verbatim>\<open>_flow\<close>, \<^verbatim>\<open>_strict\<close> and \<^verbatim>\<open>_first\<close>; one record holds them. A member function
  that mutates the object returns the updated record.
\<close>

record flow_state =
  m_flow :: real
  m_strict :: bool
  m_first :: bool

definition AndFlow :: "real \<Rightarrow> bool \<Rightarrow> flow_state" where
  "AndFlow in_flow strict = \<lparr>m_flow = in_flow, m_strict = strict, m_first = True\<rparr>"

definition AndFlow_add :: "flow_state \<Rightarrow> real \<Rightarrow> flow_state" where
  "AndFlow_add f est = f\<lparr>m_flow := m_flow f * est, m_first := False\<rparr>"

definition AndFlow_flow :: "flow_state \<Rightarrow> real" where
  "AndFlow_flow f = m_flow f"

definition AndFlow_strict :: "flow_state \<Rightarrow> bool" where
  "AndFlow_strict f \<longleftrightarrow> m_strict f \<and> m_first f"

definition AndFlow_estimate :: "flow_state \<Rightarrow> real" where
  "AndFlow_estimate f = (if m_first f then 0 else m_flow f)"

definition OrFlow :: "real \<Rightarrow> bool \<Rightarrow> flow_state" where
  "OrFlow in_flow strict = \<lparr>m_flow = in_flow, m_strict = strict, m_first = True\<rparr>"

definition OrFlow_add :: "flow_state \<Rightarrow> real \<Rightarrow> flow_state" where
  "OrFlow_add f est = f\<lparr>m_flow := m_flow f * (1 - est), m_first := False\<rparr>"

definition OrFlow_flow :: "flow_state \<Rightarrow> real" where
  "OrFlow_flow f = m_flow f"

definition OrFlow_strict :: "flow_state \<Rightarrow> bool" where
  "OrFlow_strict f \<longleftrightarrow> m_strict f"

definition OrFlow_estimate :: "flow_state \<Rightarrow> real" where
  "OrFlow_estimate f = (if m_first f then 0 else 1 - m_flow f)"

definition AndNotFlow :: "real \<Rightarrow> bool \<Rightarrow> flow_state" where
  "AndNotFlow in_flow strict = \<lparr>m_flow = in_flow, m_strict = strict, m_first = True\<rparr>"

definition AndNotFlow_add :: "flow_state \<Rightarrow> real \<Rightarrow> flow_state" where
  "AndNotFlow_add f est =
     f\<lparr>m_flow := m_flow f * (if m_first f then est else 1 - est), m_first := False\<rparr>"

definition AndNotFlow_flow :: "flow_state \<Rightarrow> real" where
  "AndNotFlow_flow f = m_flow f"

definition AndNotFlow_strict :: "flow_state \<Rightarrow> bool" where
  "AndNotFlow_strict f \<longleftrightarrow> m_strict f \<and> m_first f"

definition AndNotFlow_estimate :: "flow_state \<Rightarrow> real" where
  "AndNotFlow_estimate f = (if m_first f then 0 else m_flow f)"

text \<open>
  The template parameters \<^verbatim>\<open>F\<close> of \<^verbatim>\<open>flow::estimate_of\<close> and \<^verbatim>\<open>flow::ordered_cost_of\<close>
  and \<^verbatim>\<open>FLOW\<close> of \<^verbatim>\<open>FlowMixin\<close> select whose members are called. The selection is a
  tag, and each call dispatches on it.
\<close>

datatype FLOW = AND | OR | ANDNOT

fun F_new :: "FLOW \<Rightarrow> real \<Rightarrow> bool \<Rightarrow> flow_state" where
  "F_new AND in_flow strict = AndFlow in_flow strict"
| "F_new OR in_flow strict = OrFlow in_flow strict"
| "F_new ANDNOT in_flow strict = AndNotFlow in_flow strict"

fun F_add :: "FLOW \<Rightarrow> flow_state \<Rightarrow> real \<Rightarrow> flow_state" where
  "F_add AND f est = AndFlow_add f est"
| "F_add OR f est = OrFlow_add f est"
| "F_add ANDNOT f est = AndNotFlow_add f est"

fun F_flow :: "FLOW \<Rightarrow> flow_state \<Rightarrow> real" where
  "F_flow AND f = AndFlow_flow f"
| "F_flow OR f = OrFlow_flow f"
| "F_flow ANDNOT f = AndNotFlow_flow f"

fun F_strict :: "FLOW \<Rightarrow> flow_state \<Rightarrow> bool" where
  "F_strict AND f = AndFlow_strict f"
| "F_strict OR f = OrFlow_strict f"
| "F_strict ANDNOT f = AndNotFlow_strict f"

fun F_estimate :: "FLOW \<Rightarrow> flow_state \<Rightarrow> real" where
  "F_estimate AND f = AndFlow_estimate f"
| "F_estimate OR f = OrFlow_estimate f"
| "F_estimate ANDNOT f = AndNotFlow_estimate f"

subsection \<open>\<^verbatim>\<open>flow::estimate_of\<close> and \<^verbatim>\<open>flow::ordered_cost_of\<close>\<close>

text \<open>The loop of \<^verbatim>\<open>estimate_of\<close>: every child's estimate is added, front to back.\<close>

fun add_children :: "FLOW \<Rightarrow> 'a adapter \<Rightarrow> 'a list \<Rightarrow> flow_state \<Rightarrow> flow_state" where
  "add_children F adapter [] flow = flow"
| "add_children F adapter (child # rest) flow =
     add_children F adapter rest (F_add F flow (estimate adapter child))"

definition estimate_of :: "FLOW \<Rightarrow> 'a adapter \<Rightarrow> 'a list \<Rightarrow> flow_state \<Rightarrow> real" where
  "estimate_of F adapter children flow = F_estimate F (add_children F adapter children flow)"

text \<open>
  The loop of \<^verbatim>\<open>ordered_cost_of\<close>, with the local \<^verbatim>\<open>cost\<close> as the last argument
  (\<open>acc\<close>).
\<close>

fun ordered_cost_loop :: "FLOW \<Rightarrow> 'a adapter \<Rightarrow> 'a list \<Rightarrow> flow_state \<Rightarrow> real \<Rightarrow> real" where
  "ordered_cost_loop F adapter [] flow acc = acc"
| "ordered_cost_loop F adapter (child # rest) flow acc =
     (let child_cost = (if F_strict F flow then strict_cost adapter child else cost adapter child)
      in ordered_cost_loop F adapter rest
           (F_add F flow (estimate adapter child)) (acc + F_flow F flow * child_cost))"

definition ordered_cost_of :: "FLOW \<Rightarrow> 'a adapter \<Rightarrow> 'a list \<Rightarrow> flow_state \<Rightarrow> real" where
  "ordered_cost_of F adapter children flow = ordered_cost_loop F adapter children flow 0"

subsection \<open>\<^verbatim>\<open>flow::select_strict_and_child\<close>\<close>

text \<open>The five locals of the function that live across loop iterations.\<close>

record select_state =
  sel_idx :: nat
  sel_cost_so_far :: real
  sel_best_idx :: nat
  sel_best_diff :: real
  sel_est :: real

definition select_init :: select_state where
  "select_init = \<lparr>sel_idx = 0, sel_cost_so_far = 0, sel_best_idx = 0, sel_best_diff = 0, sel_est = 1\<rparr>"

definition select_step :: "'a adapter \<Rightarrow> select_state \<Rightarrow> 'a \<Rightarrow> select_state" where
  "select_step adapter s child =
     (let child_cost = sel_est s * cost adapter child;
          child_strict_cost = strict_cost adapter child;
          child_est = estimate adapter child;
          s1 = (if sel_idx s = 0 then s\<lparr>sel_best_diff := child_strict_cost - child_cost\<rparr>
                else
                  (let my_diff = (child_strict_cost + child_est * sel_cost_so_far s)
                                   - (sel_cost_so_far s + child_cost)
                   in if my_diff < sel_best_diff s
                      then s\<lparr>sel_best_diff := my_diff, sel_best_idx := sel_idx s\<rparr>
                      else s))
      in s1\<lparr>sel_cost_so_far := sel_cost_so_far s + child_cost,
             sel_est := sel_est s * child_est,
             sel_idx := sel_idx s + 1\<rparr>)"

fun select_loop :: "'a adapter \<Rightarrow> 'a list \<Rightarrow> select_state \<Rightarrow> select_state" where
  "select_loop adapter [] s = s"
| "select_loop adapter (child # rest) s = select_loop adapter rest (select_step adapter s child)"

definition select_strict_and_child :: "'a adapter \<Rightarrow> 'a list \<Rightarrow> nat" where
  "select_strict_and_child adapter children = sel_best_idx (select_loop adapter children select_init)"

subsection \<open>The \<^verbatim>\<open>sort\<close> members and \<^verbatim>\<open>FlowMixin\<close>\<close>

text \<open>
  The shifting loop of \<^verbatim>\<open>AndFlow::sort\<close>:
  \<^verbatim>\<open>for (; idx > 0; --idx) children[idx] = std::move(children[idx-1]);\<close>
\<close>

fun shift_up :: "'a list \<Rightarrow> nat \<Rightarrow> 'a list" where
  "shift_up children 0 = children"
| "shift_up children (Suc i) = shift_up (children[Suc i := children ! i]) i"

definition AndFlow_sort :: "'a adapter \<Rightarrow> 'a list \<Rightarrow> bool \<Rightarrow> 'a list" where
  "AndFlow_sort adapter children strict =
     (let sorted = flow_sort MinAndCost adapter children
      in if strict \<and> length sorted > 1
         then (let i = select_strict_and_child adapter sorted;
                   the_one = sorted ! i
               in (shift_up sorted i)[0 := the_one])
         else sorted)"

definition OrFlow_sort :: "'a adapter \<Rightarrow> 'a list \<Rightarrow> bool \<Rightarrow> 'a list" where
  "OrFlow_sort adapter children strict =
     (if strict then flow_sort MinOrStrictCost adapter children
      else flow_sort MinOrCost adapter children)"

definition AndNotFlow_sort :: "'a adapter \<Rightarrow> 'a list \<Rightarrow> bool \<Rightarrow> 'a list" where
  "AndNotFlow_sort adapter children strict = sort_partial MinOrCost adapter children 1"

fun F_sort :: "FLOW \<Rightarrow> 'a adapter \<Rightarrow> 'a list \<Rightarrow> bool \<Rightarrow> 'a list" where
  "F_sort AND adapter children strict = AndFlow_sort adapter children strict"
| "F_sort OR adapter children strict = OrFlow_sort adapter children strict"
| "F_sort ANDNOT adapter children strict = AndNotFlow_sort adapter children strict"

text \<open>\<^verbatim>\<open>FlowMixin<FLOW>::estimate_of(adapter, children)\<close>\<close>

definition mixin_estimate_of :: "FLOW \<Rightarrow> 'a adapter \<Rightarrow> 'a list \<Rightarrow> real" where
  "mixin_estimate_of F adapter children = estimate_of F adapter children (F_new F 1 False)"

text \<open>\<^verbatim>\<open>FlowMixin<FLOW>::cost_of(adapter, children, strict)\<close>\<close>

definition cost_order :: "FLOW \<Rightarrow> 'a adapter \<Rightarrow> 'a list \<Rightarrow> bool \<Rightarrow> nat list" where
  "cost_order F adapter children strict =
     F_sort F (IndirectAdapter adapter children) (make_index children) strict"

definition cost_of :: "FLOW \<Rightarrow> 'a adapter \<Rightarrow> 'a list \<Rightarrow> bool \<Rightarrow> real" where
  "cost_of F adapter children strict =
     (let my_adapter = IndirectAdapter adapter children;
          order = F_sort F my_adapter (make_index children) strict
      in ordered_cost_of F my_adapter order (F_new F 1 strict))"

subsection \<open>Vocabulary of the statements\<close>

text \<open>
  The domain the header's comparators and accumulators are meant for: an estimate is a
  probability, a cost is not negative.
\<close>

definition well_formed :: "'a adapter \<Rightarrow> 'a \<Rightarrow> bool" where
  "well_formed adapter c \<longleftrightarrow>
     0 \<le> estimate adapter c \<and> estimate adapter c \<le> 1 \<and>
     0 \<le> cost adapter c \<and> 0 \<le> strict_cost adapter c"

text \<open>A concrete child for the default adapter: estimate, cost, strict cost.\<close>

definition mk_child :: "real \<Rightarrow> real \<Rightarrow> real \<Rightarrow> child" where
  "mk_child e c sc = \<lparr>child_estimate = e, child_cost = c, child_strict_cost = sc\<rparr>"

text \<open>Two elements tie under a comparator when neither is less than the other.\<close>

definition incomparable :: "('a \<Rightarrow> 'a \<Rightarrow> bool) \<Rightarrow> 'a \<Rightarrow> 'a \<Rightarrow> bool" where
  "incomparable lt a b \<longleftrightarrow> \<not> lt a b \<and> \<not> lt b a"

text \<open>
  What \<^verbatim>\<open>select_strict_and_child\<close> has in its locals \<^verbatim>\<open>est\<close> and \<^verbatim>\<open>cost\<close> when the
  loop reaches child \<open>i\<close>: the product of the estimates of the children before \<open>i\<close>, and
  the sum of their costs, each weighted by the product of the estimates before it.
  \<open>strict_diff\<close> is the value the loop computes for child \<open>i\<close> (\<^verbatim>\<open>my_diff\<close>, and for
  \<open>i = 0\<close> the initial \<^verbatim>\<open>best_diff\<close>).
\<close>

definition est_before :: "'a adapter \<Rightarrow> 'a list \<Rightarrow> nat \<Rightarrow> real" where
  "est_before adapter children i = prod_list (map (estimate adapter) (take i children))"

definition cost_before :: "'a adapter \<Rightarrow> 'a list \<Rightarrow> nat \<Rightarrow> real" where
  "cost_before adapter children i =
     (\<Sum>k<i. est_before adapter children k * cost adapter (children ! k))"

definition strict_diff :: "'a adapter \<Rightarrow> 'a list \<Rightarrow> nat \<Rightarrow> real" where
  "strict_diff adapter children i =
     (strict_cost adapter (children ! i)
        + estimate adapter (children ! i) * cost_before adapter children i)
     - (cost_before adapter children i
        + est_before adapter children i * cost adapter (children ! i))"

text \<open>
  The value of candidate \<open>i\<close> after the specification's words, to be compared with
  \<open>strict_diff\<close>: index 0 has \<open>strict_cost(0) - cost(0)\<close>, a later index has
  \<open>strict_cost(i) + estimate(i) * cost_so_far - (cost_so_far + cost(i))\<close> with \<open>cost(i)\<close>
  the raw cost of the child.
\<close>

definition spec_diff :: "'a adapter \<Rightarrow> 'a list \<Rightarrow> nat \<Rightarrow> real" where
  "spec_diff adapter children i =
     (if i = 0 then strict_cost adapter (children ! 0) - cost adapter (children ! 0)
      else (strict_cost adapter (children ! i)
              + estimate adapter (children ! i) * cost_before adapter children i)
           - (cost_before adapter children i + cost adapter (children ! i)))"

text \<open>The loop invariant of \<^verbatim>\<open>select_strict_and_child\<close> after \<open>n\<close> children.\<close>

definition select_inv :: "'a adapter \<Rightarrow> 'a list \<Rightarrow> nat \<Rightarrow> select_state \<Rightarrow> bool" where
  "select_inv adapter children n s \<longleftrightarrow>
     sel_idx s = n \<and>
     sel_cost_so_far s = cost_before adapter children n \<and>
     sel_est s = est_before adapter children n \<and>
     (if n = 0 then sel_best_idx s = 0
      else sel_best_idx s < n \<and>
           strict_diff adapter children (sel_best_idx s) = sel_best_diff s \<and>
           (\<forall>j<n. sel_best_diff s \<le> strict_diff adapter children j) \<and>
           (\<forall>j<sel_best_idx s. sel_best_diff s < strict_diff adapter children j))"

text \<open>Exchanging the children at positions \<open>i\<close> and \<open>i + 1\<close>.\<close>

definition swap_adjacent :: "nat \<Rightarrow> 'a list \<Rightarrow> 'a list" where
  "swap_adjacent i xs = xs[i := xs ! Suc i, Suc i := xs ! i]"

text \<open>
  What the shifting loop of \<^verbatim>\<open>AndFlow::sort\<close> does with the selected child: child \<open>i\<close>
  goes to the front, the children before it move one place back.
\<close>

definition move_to_front :: "nat \<Rightarrow> 'a list \<Rightarrow> 'a list" where
  "move_to_front i xs = xs ! i # take i xs @ drop (Suc i) xs"

subsection \<open>Binary64 arithmetic\<close>

text \<open>
  A finite binary64 value is written \<open>Dbl m e\<close> and stands for \<open>m * 2 ^ e\<close>. The
  operations compute the exact result as an integer mantissa with an exponent and round
  it to 53 bits, to nearest with ties to even, as IEEE 754 does in its default mode. The
  exponent is not bounded: overflow, subnormal results, infinities and NaN are not
  modelled, and no value of the example below comes near them.
\<close>

datatype dbl = Dbl int int

text \<open>The number of bits of a positive integer.\<close>

fun bit_length :: "int \<Rightarrow> nat" where
  "bit_length m = (if m \<le> 0 then 0 else Suc (bit_length (m div 2)))"

declare bit_length.simps [simp del]

text \<open>\<open>M / 2 ^ k\<close> rounded to the nearest integer, a tie to the even one.\<close>

definition round_to_even :: "int \<Rightarrow> nat \<Rightarrow> int" where
  "round_to_even M k =
     (let q = M div 2 ^ k; r = M mod 2 ^ k
      in if 2 * r < 2 ^ k then q
         else if 2 * r > 2 ^ k then q + 1
         else if even q then q else q + 1)"

text \<open>
  Rounding of \<open>M * 2 ^ E\<close> to 53 bits. The subtraction of naturals is cut off at 0: a
  mantissa of at most 53 bits is kept as it is.
\<close>

definition round53 :: "int \<Rightarrow> int \<Rightarrow> dbl" where
  "round53 M E =
     (let k = bit_length \<bar>M\<bar> - 53
      in Dbl (round_to_even M k) (E + int k))"

text \<open>\<^verbatim>\<open>*\<close>, \<^verbatim>\<open>+\<close>, \<^verbatim>\<open>-\<close> and \<^verbatim>\<open><\<close> on doubles, and the real number a double stands for.\<close>

fun d_mul :: "dbl \<Rightarrow> dbl \<Rightarrow> dbl" where
  "d_mul (Dbl m1 e1) (Dbl m2 e2) = round53 (m1 * m2) (e1 + e2)"

fun d_add :: "dbl \<Rightarrow> dbl \<Rightarrow> dbl" where
  "d_add (Dbl m1 e1) (Dbl m2 e2) =
     (let e = min e1 e2
      in round53 (m1 * 2 ^ nat (e1 - e) + m2 * 2 ^ nat (e2 - e)) e)"

fun d_sub :: "dbl \<Rightarrow> dbl \<Rightarrow> dbl" where
  "d_sub (Dbl m1 e1) (Dbl m2 e2) =
     (let e = min e1 e2
      in round53 (m1 * 2 ^ nat (e1 - e) - m2 * 2 ^ nat (e2 - e)) e)"

fun d_less :: "dbl \<Rightarrow> dbl \<Rightarrow> bool" where
  "d_less (Dbl m1 e1) (Dbl m2 e2) =
     (let e = min e1 e2
      in m1 * 2 ^ nat (e1 - e) < m2 * 2 ^ nat (e2 - e))"

fun d_val :: "dbl \<Rightarrow> real" where
  "d_val (Dbl m e) = of_int m * 2 powi e"

text \<open>
  A child with binary64 estimate, cost and strict cost, \<^verbatim>\<open>MinAndCost\<close> with the default
  adapter (\<^verbatim>\<open>x > y\<close> is \<^verbatim>\<open>y < x\<close>), the members of \<^verbatim>\<open>AndFlow\<close> and
  \<^verbatim>\<open>ordered_cost_of\<close> for \<^verbatim>\<open>F = AndFlow\<close>, each as in the header with the double
  operations in place of the exact ones.
\<close>

record dchild =
  d_estimate :: dbl
  d_cost :: dbl
  d_strict_cost :: dbl

definition MinAndCost_d :: "dchild \<Rightarrow> dchild \<Rightarrow> bool" where
  "MinAndCost_d a b \<longleftrightarrow>
     d_less (d_mul (d_sub (Dbl 1 0) (d_estimate b)) (d_cost a))
            (d_mul (d_sub (Dbl 1 0) (d_estimate a)) (d_cost b))"

record dflow_state =
  d_flow :: dbl
  d_strict :: bool
  d_first :: bool

definition AndFlow_d :: "dbl \<Rightarrow> bool \<Rightarrow> dflow_state" where
  "AndFlow_d in_flow strict = \<lparr>d_flow = in_flow, d_strict = strict, d_first = True\<rparr>"

definition AndFlow_d_add :: "dflow_state \<Rightarrow> dbl \<Rightarrow> dflow_state" where
  "AndFlow_d_add f est = f\<lparr>d_flow := d_mul (d_flow f) est, d_first := False\<rparr>"

definition AndFlow_d_flow :: "dflow_state \<Rightarrow> dbl" where
  "AndFlow_d_flow f = d_flow f"

definition AndFlow_d_strict :: "dflow_state \<Rightarrow> bool" where
  "AndFlow_d_strict f \<longleftrightarrow> d_strict f \<and> d_first f"

fun ordered_cost_loop_d :: "dchild list \<Rightarrow> dflow_state \<Rightarrow> dbl \<Rightarrow> dbl" where
  "ordered_cost_loop_d [] flow acc = acc"
| "ordered_cost_loop_d (child # rest) flow acc =
     (let child_cost = (if AndFlow_d_strict flow then d_strict_cost child else d_cost child)
      in ordered_cost_loop_d rest (AndFlow_d_add flow (d_estimate child))
           (d_add acc (d_mul (AndFlow_d_flow flow) child_cost)))"

definition ordered_cost_of_d :: "dchild list \<Rightarrow> dflow_state \<Rightarrow> dbl" where
  "ordered_cost_of_d children flow = ordered_cost_loop_d children flow (Dbl 0 0)"

text \<open>A binary64 child whose strict cost is its cost.\<close>

definition mk_dchild :: "dbl \<Rightarrow> dbl \<Rightarrow> dchild" where
  "mk_dchild e c = \<lparr>d_estimate = e, d_cost = c, d_strict_cost = c\<rparr>"

section \<open>What the accumulators hold after a run of \<open>add\<close> calls\<close>

lemma DefaultAdapter_mk_child [simp]:
  "estimate DefaultAdapter (mk_child e c sc) = e"
  "cost DefaultAdapter (mk_child e c sc) = c"
  "strict_cost DefaultAdapter (mk_child e c sc) = sc"
  by (simp_all add: DefaultAdapter_def mk_child_def)

lemma m_first_add_children:
  "m_first (add_children F adapter xs f) \<longleftrightarrow> m_first f \<and> xs = []"
  by (induction xs arbitrary: f)
     (cases F; simp add: AndFlow_add_def OrFlow_add_def AndNotFlow_add_def)+

lemma m_strict_add_children:
  "m_strict (add_children F adapter xs f) = m_strict f"
  by (induction xs arbitrary: f)
     (cases F; simp add: AndFlow_add_def OrFlow_add_def AndNotFlow_add_def)+

lemma m_flow_add_children_AND:
  "m_flow (add_children AND adapter xs f) = m_flow f * prod_list (map (estimate adapter) xs)"
  by (induction xs arbitrary: f) (simp_all add: AndFlow_add_def mult.assoc)

lemma m_flow_add_children_OR:
  "m_flow (add_children OR adapter xs f) =
     m_flow f * prod_list (map (\<lambda>x. 1 - estimate adapter x) xs)"
  by (induction xs arbitrary: f) (simp_all add: OrFlow_add_def mult.assoc)

lemma m_flow_add_children_ANDNOT_later:
  "\<not> m_first f \<Longrightarrow>
   m_flow (add_children ANDNOT adapter xs f) =
     m_flow f * prod_list (map (\<lambda>x. 1 - estimate adapter x) xs)"
  by (induction xs arbitrary: f) (simp_all add: AndNotFlow_add_def mult.assoc)

lemma m_flow_add_children_ANDNOT_first:
  "m_first f \<Longrightarrow>
   m_flow (add_children ANDNOT adapter (x # xs) f) =
     m_flow f * estimate adapter x * prod_list (map (\<lambda>x. 1 - estimate adapter x) xs)"
  by (simp add: m_flow_add_children_ANDNOT_later AndNotFlow_add_def)

lemma andnot_estimate_of_Nil: "mixin_estimate_of ANDNOT adapter [] = 0"
  by (simp add: mixin_estimate_of_def estimate_of_def AndNotFlow_estimate_def AndNotFlow_def)

lemma andnot_estimate_of_Cons:
  "mixin_estimate_of ANDNOT adapter (c # rest) =
     estimate adapter c * prod_list (map (\<lambda>x. 1 - estimate adapter x) rest)"
  by (simp del: add_children.simps
      add: mixin_estimate_of_def estimate_of_def AndNotFlow_estimate_def
        m_first_add_children m_flow_add_children_ANDNOT_first AndNotFlow_def)


section \<open>Closed forms of \<^verbatim>\<open>estimate_of\<close>\<close>

text \<open>
  Claim C6. For an AND node, \<^verbatim>\<open>estimate_of\<close> returns the product of the children's
  estimates when there is at least one child, and 0 when there is none.
\<close>

theorem and_estimate_of_product:
  "mixin_estimate_of AND adapter children =
     (if children = [] then 0 else prod_list (map (estimate adapter) children))"
  by (simp add: mixin_estimate_of_def estimate_of_def AndFlow_estimate_def
      m_first_add_children m_flow_add_children_AND AndFlow_def)

text \<open>
  Claim C7. For an OR node, \<^verbatim>\<open>estimate_of\<close> returns one minus the product of the
  complements \<open>1 - e\<close> of the children's estimates when there is at least one child, and
  0 when there is none.
\<close>

theorem or_estimate_of_complement_product:
  "mixin_estimate_of OR adapter children =
     (if children = [] then 0
      else 1 - prod_list (map (\<lambda>c. 1 - estimate adapter c) children))"
  by (simp add: mixin_estimate_of_def estimate_of_def OrFlow_estimate_def
      m_first_add_children m_flow_add_children_OR OrFlow_def)

text \<open>
  Claim C8. For an AND-NOT node, \<^verbatim>\<open>estimate_of\<close> returns 0 for no children, and for
  children \<open>c # rest\<close> the estimate of \<open>c\<close> times the product of \<open>1 - e\<close> over \<open>rest\<close>;
  for two children with estimates 0.9 and 0.5 that is 0.45.
\<close>

theorem andnot_estimate_of_closed_form:
  "mixin_estimate_of ANDNOT adapter [] = 0 \<and>
   mixin_estimate_of ANDNOT adapter (c # rest) =
     estimate adapter c * prod_list (map (\<lambda>x. 1 - estimate adapter x) rest) \<and>
   mixin_estimate_of ANDNOT DefaultAdapter
     [\<lparr>child_estimate = 0.9, child_cost = 1, child_strict_cost = 1\<rparr>,
      \<lparr>child_estimate = 0.5, child_cost = 2, child_strict_cost = 2\<rparr>] = 0.45"
  by (simp add: andnot_estimate_of_Nil andnot_estimate_of_Cons DefaultAdapter_def)


section \<open>The unit interval is kept\<close>

lemma F_flow_m_flow: "F_flow F f = m_flow f"
  by (cases F) (simp_all add: AndFlow_flow_def OrFlow_flow_def AndNotFlow_flow_def)

lemma add_keeps_unit_interval:
  assumes "0 \<le> m_flow f" "m_flow f \<le> 1" "0 \<le> e" "e \<le> 1"
  shows "0 \<le> m_flow (F_add F f e) \<and> m_flow (F_add F f e) \<le> m_flow f"
proof -
  have a: "0 \<le> m_flow f * e \<and> m_flow f * e \<le> m_flow f"
    using assms by (simp add: mult_left_le)
  have b: "0 \<le> m_flow f * (1 - e) \<and> m_flow f * (1 - e) \<le> m_flow f"
    using assms by (simp add: mult_left_le)
  show ?thesis
    using a b by (cases F) (simp_all add: AndFlow_add_def OrFlow_add_def AndNotFlow_add_def)
qed

lemma foldl_add_unit_interval:
  assumes "\<forall>e\<in>set ests. 0 \<le> e \<and> e \<le> 1" "0 \<le> m_flow f" "m_flow f \<le> 1"
  shows "0 \<le> m_flow (foldl (F_add F) f ests) \<and> m_flow (foldl (F_add F) f ests) \<le> 1"
  using assms
proof (induction ests arbitrary: f)
  case Nil
  then show ?case by simp
next
  case (Cons e ests)
  have "0 \<le> m_flow (F_add F f e) \<and> m_flow (F_add F f e) \<le> m_flow f"
    using Cons.prems by (intro add_keeps_unit_interval) simp_all
  with Cons.prems have "0 \<le> m_flow (F_add F f e) \<and> m_flow (F_add F f e) \<le> 1"
    by linarith
  with Cons.IH [of "F_add F f e"] Cons.prems(1) show ?case by simp
qed

lemma estimate_unit_interval:
  assumes "0 \<le> m_flow f" "m_flow f \<le> 1"
  shows "0 \<le> F_estimate F f \<and> F_estimate F f \<le> 1"
  using assms
  by (cases F) (simp_all add: AndFlow_estimate_def OrFlow_estimate_def AndNotFlow_estimate_def)

lemma add_children_foldl:
  "add_children F adapter xs f = foldl (F_add F) f (map (estimate adapter) xs)"
  by (induction xs arbitrary: f) simp_all

text \<open>
  Claim C10. Each of the three accumulators starts at flow 1. If every estimate given to
  \<open>add\<close> lies in \<open>[0,1]\<close>, then after any run of \<open>add\<close> calls \<open>flow()\<close> lies in
  \<open>[0,1]\<close>, one more \<open>add\<close> (of an estimate in \<open>[0,1]\<close>) does not increase it, and
  \<open>estimate()\<close> lies in \<open>[0,1]\<close>.
\<close>

theorem flow_stays_in_unit_interval:
  assumes "\<forall>e\<in>set ests. 0 \<le> e \<and> e \<le> 1" and "0 \<le> e'" and "e' \<le> 1"
  shows "0 \<le> F_flow F (foldl (F_add F) (F_new F 1 strict) ests) \<and>
         F_flow F (foldl (F_add F) (F_new F 1 strict) ests) \<le> 1 \<and>
         F_flow F (F_add F (foldl (F_add F) (F_new F 1 strict) ests) e')
           \<le> F_flow F (foldl (F_add F) (F_new F 1 strict) ests) \<and>
         0 \<le> F_estimate F (foldl (F_add F) (F_new F 1 strict) ests) \<and>
         F_estimate F (foldl (F_add F) (F_new F 1 strict) ests) \<le> 1"
proof -
  have init: "m_flow (F_new F 1 strict) = 1"
    by (cases F) (simp_all add: AndFlow_def OrFlow_def AndNotFlow_def)
  have inv: "0 \<le> m_flow (foldl (F_add F) (F_new F 1 strict) ests) \<and>
             m_flow (foldl (F_add F) (F_new F 1 strict) ests) \<le> 1"
    using assms(1) init by (intro foldl_add_unit_interval) simp_all
  from inv assms(2,3) add_keeps_unit_interval
  have step: "m_flow (F_add F (foldl (F_add F) (F_new F 1 strict) ests) e')
                \<le> m_flow (foldl (F_add F) (F_new F 1 strict) ests)"
    by blast
  from inv estimate_unit_interval
  have est: "0 \<le> F_estimate F (foldl (F_add F) (F_new F 1 strict) ests) \<and>
             F_estimate F (foldl (F_add F) (F_new F 1 strict) ests) \<le> 1"
    by blast
  show ?thesis using inv step est by (simp add: F_flow_m_flow)
qed

theorem flow_stays_in_unit_interval_witness:
  "0 \<le> F_flow OR (foldl (F_add OR) (F_new OR 1 True) [1/2, 1/4]) \<and>
   F_flow OR (foldl (F_add OR) (F_new OR 1 True) [1/2, 1/4]) \<le> 1 \<and>
   F_flow OR (F_add OR (foldl (F_add OR) (F_new OR 1 True) [1/2, 1/4]) (1/3))
     \<le> F_flow OR (foldl (F_add OR) (F_new OR 1 True) [1/2, 1/4]) \<and>
   0 \<le> F_estimate OR (foldl (F_add OR) (F_new OR 1 True) [1/2, 1/4]) \<and>
   F_estimate OR (foldl (F_add OR) (F_new OR 1 True) [1/2, 1/4]) \<le> 1 \<and>
   F_flow OR (foldl (F_add OR) (F_new OR 1 True) [1/2, 1/4]) = 3/8"
proof -
  have h: "\<forall>e\<in>set [1/2, 1/4::real]. 0 \<le> e \<and> e \<le> 1" by simp
  have v: "F_flow OR (foldl (F_add OR) (F_new OR 1 True) [1/2, 1/4]) = 3/8"
    by (simp add: OrFlow_def OrFlow_add_def OrFlow_flow_def)
  show ?thesis
    using flow_stays_in_unit_interval [OF h, of "1/3" OR True] v by simp
qed


section \<open>\<^verbatim>\<open>estimate_of\<close> and the order of the children\<close>

lemma prod_list_map_mset:
  fixes g :: "'a \<Rightarrow> real"
  assumes "mset xs = mset ys"
  shows "prod_list (map g xs) = prod_list (map g ys)"
proof -
  have "prod_list (map g xs) = prod_mset (image_mset g (mset xs))"
    by (simp flip: prod_mset_prod_list)
  also have "\<dots> = prod_mset (image_mset g (mset ys))" using assms by simp
  also have "\<dots> = prod_list (map g ys)" by (simp flip: prod_mset_prod_list)
  finally show ?thesis .
qed

text \<open>
  Claim C4, as the code has it. For AND and OR nodes \<^verbatim>\<open>estimate_of\<close> gives the same
  value on every permutation of the children. For an AND-NOT node it gives the same value
  on every permutation that keeps the first child first; the first child is folded as
  \<open>e\<close>, the others as \<open>1 - e\<close>, so moving another child to the front changes the value.
\<close>

theorem estimate_of_permutation:
  assumes "mset xs = mset ys"
  shows "mixin_estimate_of AND adapter xs = mixin_estimate_of AND adapter ys \<and>
         mixin_estimate_of OR adapter xs = mixin_estimate_of OR adapter ys \<and>
         mixin_estimate_of ANDNOT adapter (c # xs) = mixin_estimate_of ANDNOT adapter (c # ys)"
proof -
  have e: "xs = [] \<longleftrightarrow> ys = []" using assms by (metis mset_zero_iff)
  have p1: "prod_list (map (estimate adapter) xs) = prod_list (map (estimate adapter) ys)"
    using assms by (rule prod_list_map_mset)
  have p2: "prod_list (map (\<lambda>c. 1 - estimate adapter c) xs)
              = prod_list (map (\<lambda>c. 1 - estimate adapter c) ys)"
    using assms by (rule prod_list_map_mset)
  have a: "mixin_estimate_of AND adapter xs = mixin_estimate_of AND adapter ys"
    using e p1
    by (simp add: mixin_estimate_of_def estimate_of_def AndFlow_estimate_def
      m_first_add_children m_flow_add_children_AND AndFlow_def)
  have b: "mixin_estimate_of OR adapter xs = mixin_estimate_of OR adapter ys"
    using e p2
    by (simp add: mixin_estimate_of_def estimate_of_def OrFlow_estimate_def
      m_first_add_children m_flow_add_children_OR OrFlow_def)
  have c: "mixin_estimate_of ANDNOT adapter (c # xs) = mixin_estimate_of ANDNOT adapter (c # ys)"
    using p2 by (simp only: andnot_estimate_of_Cons)
  show ?thesis using a b c by simp
qed

theorem estimate_of_permutation_witness:
  "mixin_estimate_of AND DefaultAdapter [mk_child (1/2) 1 1, mk_child (1/4) 2 2]
     = mixin_estimate_of AND DefaultAdapter [mk_child (1/4) 2 2, mk_child (1/2) 1 1] \<and>
   mixin_estimate_of OR DefaultAdapter [mk_child (1/2) 1 1, mk_child (1/4) 2 2]
     = mixin_estimate_of OR DefaultAdapter [mk_child (1/4) 2 2, mk_child (1/2) 1 1] \<and>
   mixin_estimate_of ANDNOT DefaultAdapter
       [mk_child (9/10) 1 1, mk_child (1/2) 1 1, mk_child (1/4) 2 2]
     = mixin_estimate_of ANDNOT DefaultAdapter
       [mk_child (9/10) 1 1, mk_child (1/4) 2 2, mk_child (1/2) 1 1]"
proof -
  have h: "mset [mk_child (1/2) 1 1, mk_child (1/4) 2 2]
             = mset [mk_child (1/4) 2 2, mk_child (1/2) 1 1]"
    by (simp add: add_mset_commute)
  show ?thesis
    using estimate_of_permutation [OF h, of DefaultAdapter "mk_child (9/10) 1 1"] by simp
qed

text \<open>
  The claim as stated fails for AND-NOT: the children with estimates 0.9 and 0.5 give
  0.45 in this order and 0.05 in the other.
\<close>

theorem andnot_estimate_of_order_counterexample:
  "mset [mk_child (9/10) 1 1, mk_child (1/2) 2 2] = mset [mk_child (1/2) 2 2, mk_child (9/10) 1 1] \<and>
   mixin_estimate_of ANDNOT DefaultAdapter [mk_child (9/10) 1 1, mk_child (1/2) 2 2] = 9/20 \<and>
   mixin_estimate_of ANDNOT DefaultAdapter [mk_child (1/2) 2 2, mk_child (9/10) 1 1] = 1/20"
  by (simp add: add_mset_commute andnot_estimate_of_Cons DefaultAdapter_def mk_child_def)


section \<open>The sorted range\<close>

lemma mset_insert_by: "mset (insert_by lt x xs) = add_mset x (mset xs)"
  by (induction xs) simp_all

lemma mset_std_sort: "mset (std_sort lt xs) = mset xs"
  by (induction xs) (simp_all add: mset_insert_by)

lemma length_std_sort: "length (std_sort lt xs) = length xs"
  using mset_std_sort [of lt xs] by (metis size_mset)

lemma hd_insert_by:
  "hd (insert_by lt x xs) = (if xs \<noteq> [] \<and> lt (hd xs) x then hd xs else x)"
  by (cases xs) simp_all

lemma insert_by_not_Nil: "insert_by lt x xs \<noteq> []"
  by (cases xs) simp_all

lemma successively_insert_by:
  assumes asym: "\<And>a b. lt a b \<Longrightarrow> \<not> lt b a"
    and "successively (\<lambda>a b. \<not> lt b a) xs"
  shows "successively (\<lambda>a b. \<not> lt b a) (insert_by lt x xs)"
  using assms(2)
proof (induction xs)
  case Nil
  then show ?case by simp
next
  case (Cons y ys)
  show ?case
  proof (cases "lt y x")
    case True
    have tl: "successively (\<lambda>a b. \<not> lt b a) (insert_by lt x ys)"
      using Cons by (auto simp: successively_Cons)
    have "\<not> lt (hd (insert_by lt x ys)) y"
      using True asym Cons.prems by (auto simp: hd_insert_by successively_Cons)
    with tl True show ?thesis by (simp add: successively_Cons insert_by_not_Nil)
  next
    case False
    with Cons.prems show ?thesis by simp
  qed
qed

lemma successively_std_sort:
  assumes "\<And>a b. lt a b \<Longrightarrow> \<not> lt b a"
  shows "successively (\<lambda>a b. \<not> lt b a) (std_sort lt xs)"
  by (induction xs) (simp_all add: successively_insert_by assms)

lemma MinAndCost_asym: "MinAndCost adapter a b \<Longrightarrow> \<not> MinAndCost adapter b a"
  by (simp add: MinAndCost_def)

lemma MinOrCost_asym: "MinOrCost adapter a b \<Longrightarrow> \<not> MinOrCost adapter b a"
  by (simp add: MinOrCost_def)

lemma MinOrStrictCost_asym: "MinOrStrictCost adapter a b \<Longrightarrow> \<not> MinOrStrictCost adapter b a"
  by (simp add: MinOrStrictCost_def)

text \<open>
  Claim C9. \<^verbatim>\<open>AndNotFlow::sort\<close> leaves the first element where it is, for either value
  of the strictness flag: the output of \<open>c # rest\<close> is \<open>c\<close> followed by \<open>rest\<close> sorted by
  \<^verbatim>\<open>MinOrCost\<close> (a permutation of \<open>rest\<close> in which no element is less than its
  predecessor), and the empty sequence stays empty.
\<close>

theorem andnot_sort_keeps_first:
  "AndNotFlow_sort adapter [] strict = [] \<and>
   AndNotFlow_sort adapter (c # rest) strict = c # std_sort (MinOrCost adapter) rest \<and>
   mset (std_sort (MinOrCost adapter) rest) = mset rest \<and>
   successively (\<lambda>a b. \<not> MinOrCost adapter b a) (std_sort (MinOrCost adapter) rest)"
proof -
  have "AndNotFlow_sort adapter (c # rest) strict = c # std_sort (MinOrCost adapter) rest"
    by (cases rest) (simp_all add: AndNotFlow_sort_def sort_partial_def)
  moreover have "successively (\<lambda>a b. \<not> MinOrCost adapter b a) (std_sort (MinOrCost adapter) rest)"
    by (rule successively_std_sort) (rule MinOrCost_asym)
  ultimately show ?thesis
    by (simp add: AndNotFlow_sort_def sort_partial_def mset_std_sort)
qed


section \<open>The comparators as orders\<close>

lemma cross_less_trans:
  fixes ra ca rb cb rc cc :: real
  assumes "0 \<le> ra" "0 \<le> ca" "0 \<le> rb" "0 \<le> cb" "0 \<le> rc" "0 \<le> cc"
    and ab: "ra * cb > rb * ca" and bc: "rb * cc > rc * cb"
  shows "ra * cc > rc * ca"
proof -
  have rb: "0 < rb" using bc assms(3,4,5,6)
    by (metis less_eq_real_def mult_nonneg_nonneg mult_zero_left not_less order.strict_trans2)
  have cb: "0 < cb" using ab assms(1,2,3,4)
    by (metis less_eq_real_def mult_nonneg_nonneg mult_zero_right not_less order.strict_trans2)
  have "(rb * ca) * (rc * cb) < (ra * cb) * (rb * cc)"
  proof (rule mult_strict_mono)
    show "rb * ca < ra * cb" by (rule ab)
    show "rc * cb < rb * cc" by (rule bc)
    show "0 < ra * cb" using ab assms(2,3) by (smt (verit) mult_nonneg_nonneg)
    show "0 \<le> rc * cb" using assms(4,5) by simp
  qed
  then have "(rb * cb) * (rc * ca) < (rb * cb) * (ra * cc)"
    by (simp add: mult_ac)
  then show ?thesis using rb cb by simp
qed

lemma cross_equiv_trans:
  fixes ra ca rb cb rc cc :: real
  assumes ab: "ra * cb = rb * ca" and bc: "rb * cc = rc * cb" and nz: "rb \<noteq> 0 \<or> cb \<noteq> 0"
  shows "ra * cc = rc * ca"
proof -
  have "rb * (ra * cc) = rb * (rc * ca)"
    using ab bc by (metis mult.assoc mult.left_commute)
  moreover have "cb * (ra * cc) = cb * (rc * ca)"
    using ab bc by (metis mult.assoc mult.commute mult.left_commute)
  ultimately show ?thesis using nz by auto
qed


lemma MinAndCost_trans:
  assumes "well_formed adapter a" "well_formed adapter b" "well_formed adapter c"
    and "MinAndCost adapter a b" "MinAndCost adapter b c"
  shows "MinAndCost adapter a c"
  using assms
    cross_less_trans [of "1 - estimate adapter a" "cost adapter a" "1 - estimate adapter b"
      "cost adapter b" "1 - estimate adapter c" "cost adapter c"]
  by (simp add: MinAndCost_def well_formed_def)

lemma MinOrCost_trans:
  assumes "well_formed adapter a" "well_formed adapter b" "well_formed adapter c"
    and "MinOrCost adapter a b" "MinOrCost adapter b c"
  shows "MinOrCost adapter a c"
  using assms
    cross_less_trans [of "estimate adapter a" "cost adapter a" "estimate adapter b"
      "cost adapter b" "estimate adapter c" "cost adapter c"]
  by (simp add: MinOrCost_def well_formed_def)

lemma MinOrStrictCost_trans:
  assumes "well_formed adapter a" "well_formed adapter b" "well_formed adapter c"
    and "MinOrStrictCost adapter a b" "MinOrStrictCost adapter b c"
  shows "MinOrStrictCost adapter a c"
  using assms
    cross_less_trans [of "estimate adapter a" "strict_cost adapter a" "estimate adapter b"
      "strict_cost adapter b" "estimate adapter c" "strict_cost adapter c"]
  by (simp add: MinOrStrictCost_def well_formed_def)

lemma MinAndCost_incomparable_trans:
  assumes "incomparable (MinAndCost adapter) a b" "incomparable (MinAndCost adapter) b c"
    and "estimate adapter b \<noteq> 1 \<or> cost adapter b \<noteq> 0"
  shows "incomparable (MinAndCost adapter) a c"
proof -
  have ab: "(1 - estimate adapter a) * cost adapter b = (1 - estimate adapter b) * cost adapter a"
    using assms(1) by (simp add: incomparable_def MinAndCost_def)
  have bc: "(1 - estimate adapter b) * cost adapter c = (1 - estimate adapter c) * cost adapter b"
    using assms(2) by (simp add: incomparable_def MinAndCost_def)
  have nz: "(1 - estimate adapter b) \<noteq> 0 \<or> cost adapter b \<noteq> 0"
    using assms(3) by simp
  have "(1 - estimate adapter a) * cost adapter c = (1 - estimate adapter c) * cost adapter a"
    by (rule cross_equiv_trans [OF ab bc nz])
  then show ?thesis by (simp add: incomparable_def MinAndCost_def)
qed

lemma MinOrCost_incomparable_trans:
  assumes "incomparable (MinOrCost adapter) a b" "incomparable (MinOrCost adapter) b c"
    and "estimate adapter b \<noteq> 0 \<or> cost adapter b \<noteq> 0"
  shows "incomparable (MinOrCost adapter) a c"
proof -
  have ab: "estimate adapter a * cost adapter b = estimate adapter b * cost adapter a"
    using assms(1) by (simp add: incomparable_def MinOrCost_def)
  have bc: "estimate adapter b * cost adapter c = estimate adapter c * cost adapter b"
    using assms(2) by (simp add: incomparable_def MinOrCost_def)
  have nz: "estimate adapter b \<noteq> 0 \<or> cost adapter b \<noteq> 0"
    using assms(3) by simp
  have "estimate adapter a * cost adapter c = estimate adapter c * cost adapter a"
    by (rule cross_equiv_trans [OF ab bc nz])
  then show ?thesis by (simp add: incomparable_def MinOrCost_def)
qed

lemma MinOrStrictCost_incomparable_trans:
  assumes "incomparable (MinOrStrictCost adapter) a b" "incomparable (MinOrStrictCost adapter) b c"
    and "estimate adapter b \<noteq> 0 \<or> strict_cost adapter b \<noteq> 0"
  shows "incomparable (MinOrStrictCost adapter) a c"
proof -
  have ab: "estimate adapter a * strict_cost adapter b = estimate adapter b * strict_cost adapter a"
    using assms(1) by (simp add: incomparable_def MinOrStrictCost_def)
  have bc: "estimate adapter b * strict_cost adapter c = estimate adapter c * strict_cost adapter b"
    using assms(2) by (simp add: incomparable_def MinOrStrictCost_def)
  have nz: "estimate adapter b \<noteq> 0 \<or> strict_cost adapter b \<noteq> 0"
    using assms(3) by simp
  have "estimate adapter a * strict_cost adapter c = estimate adapter c * strict_cost adapter a"
    by (rule cross_equiv_trans [OF ab bc nz])
  then show ?thesis by (simp add: incomparable_def MinOrStrictCost_def)
qed

text \<open>
  Claim C5, as the code has it. On children with estimates in \<open>[0,1]\<close> and costs and
  strict costs at least 0, each of \<^verbatim>\<open>MinAndCost\<close>, \<^verbatim>\<open>MinOrCost\<close> and
  \<^verbatim>\<open>MinOrStrictCost\<close> is irreflexive and transitive. Ties are transitive through a
  middle element that is not degenerate: for \<^verbatim>\<open>MinAndCost\<close> one that does not have
  both estimate 1 and cost 0, for \<^verbatim>\<open>MinOrCost\<close> one that does not have both estimate
  0 and cost 0, for \<^verbatim>\<open>MinOrStrictCost\<close> one that does not have both estimate 0 and
  strict cost 0.
\<close>

theorem comparators_order_properties:
  assumes "well_formed adapter a" "well_formed adapter b" "well_formed adapter c"
  shows "\<not> MinAndCost adapter a a \<and> \<not> MinOrCost adapter a a \<and> \<not> MinOrStrictCost adapter a a \<and>
    (MinAndCost adapter a b \<and> MinAndCost adapter b c \<longrightarrow> MinAndCost adapter a c) \<and>
    (MinOrCost adapter a b \<and> MinOrCost adapter b c \<longrightarrow> MinOrCost adapter a c) \<and>
    (MinOrStrictCost adapter a b \<and> MinOrStrictCost adapter b c \<longrightarrow> MinOrStrictCost adapter a c) \<and>
    (incomparable (MinAndCost adapter) a b \<and> incomparable (MinAndCost adapter) b c \<and>
       (estimate adapter b \<noteq> 1 \<or> cost adapter b \<noteq> 0)
       \<longrightarrow> incomparable (MinAndCost adapter) a c) \<and>
    (incomparable (MinOrCost adapter) a b \<and> incomparable (MinOrCost adapter) b c \<and>
       (estimate adapter b \<noteq> 0 \<or> cost adapter b \<noteq> 0)
       \<longrightarrow> incomparable (MinOrCost adapter) a c) \<and>
    (incomparable (MinOrStrictCost adapter) a b \<and> incomparable (MinOrStrictCost adapter) b c \<and>
       (estimate adapter b \<noteq> 0 \<or> strict_cost adapter b \<noteq> 0)
       \<longrightarrow> incomparable (MinOrStrictCost adapter) a c)"
proof -
  have irrefl: "\<not> MinAndCost adapter a a \<and> \<not> MinOrCost adapter a a \<and> \<not> MinOrStrictCost adapter a a"
    by (simp add: MinAndCost_def MinOrCost_def MinOrStrictCost_def)
  have t1: "MinAndCost adapter a b \<and> MinAndCost adapter b c \<longrightarrow> MinAndCost adapter a c"
    using MinAndCost_trans [OF assms] by blast
  have t2: "MinOrCost adapter a b \<and> MinOrCost adapter b c \<longrightarrow> MinOrCost adapter a c"
    using MinOrCost_trans [OF assms] by blast
  have t3: "MinOrStrictCost adapter a b \<and> MinOrStrictCost adapter b c \<longrightarrow> MinOrStrictCost adapter a c"
    using MinOrStrictCost_trans [OF assms] by blast
  have i1: "incomparable (MinAndCost adapter) a b \<and> incomparable (MinAndCost adapter) b c \<and>
       (estimate adapter b \<noteq> 1 \<or> cost adapter b \<noteq> 0)
       \<longrightarrow> incomparable (MinAndCost adapter) a c"
    using MinAndCost_incomparable_trans [of adapter a b c] by blast
  have i2: "incomparable (MinOrCost adapter) a b \<and> incomparable (MinOrCost adapter) b c \<and>
       (estimate adapter b \<noteq> 0 \<or> cost adapter b \<noteq> 0)
       \<longrightarrow> incomparable (MinOrCost adapter) a c"
    using MinOrCost_incomparable_trans [of adapter a b c] by blast
  have i3: "incomparable (MinOrStrictCost adapter) a b \<and> incomparable (MinOrStrictCost adapter) b c \<and>
       (estimate adapter b \<noteq> 0 \<or> strict_cost adapter b \<noteq> 0)
       \<longrightarrow> incomparable (MinOrStrictCost adapter) a c"
    using MinOrStrictCost_incomparable_trans [of adapter a b c] by blast
  from irrefl t1 t2 t3 i1 i2 i3 show ?thesis by (intro conjI) blast+
qed

theorem comparators_order_properties_witness:
  "well_formed DefaultAdapter (mk_child (1/4) 1 1) \<and>
   well_formed DefaultAdapter (mk_child (1/2) 3 3) \<and>
   well_formed DefaultAdapter (mk_child (3/4) 4 4) \<and>
   MinAndCost DefaultAdapter (mk_child (1/4) 1 1) (mk_child (1/2) 3 3) \<and>
   MinAndCost DefaultAdapter (mk_child (1/2) 3 3) (mk_child (3/4) 4 4) \<and>
   MinAndCost DefaultAdapter (mk_child (1/4) 1 1) (mk_child (3/4) 4 4) \<and>
   well_formed DefaultAdapter (mk_child (1/2) 1 1) \<and>
   well_formed DefaultAdapter (mk_child (3/4) (1/2) 1) \<and>
   well_formed DefaultAdapter (mk_child 0 2 1) \<and>
   incomparable (MinAndCost DefaultAdapter) (mk_child (1/2) 1 1) (mk_child (3/4) (1/2) 1) \<and>
   incomparable (MinAndCost DefaultAdapter) (mk_child (3/4) (1/2) 1) (mk_child 0 2 1) \<and>
   incomparable (MinAndCost DefaultAdapter) (mk_child (1/2) 1 1) (mk_child 0 2 1)"
proof -
  have wf: "well_formed DefaultAdapter (mk_child (1/4) 1 1)"
    "well_formed DefaultAdapter (mk_child (1/2) 3 3)"
    "well_formed DefaultAdapter (mk_child (3/4) 4 4)"
    by (simp_all add: well_formed_def)
  have lt: "MinAndCost DefaultAdapter (mk_child (1/4) 1 1) (mk_child (1/2) 3 3)"
    "MinAndCost DefaultAdapter (mk_child (1/2) 3 3) (mk_child (3/4) 4 4)"
    by (simp_all add: MinAndCost_def)
  have wf': "well_formed DefaultAdapter (mk_child (1/2) 1 1)"
    "well_formed DefaultAdapter (mk_child (3/4) (1/2) 1)"
    "well_formed DefaultAdapter (mk_child 0 2 1)"
    by (simp_all add: well_formed_def)
  have tie: "incomparable (MinAndCost DefaultAdapter) (mk_child (1/2) 1 1) (mk_child (3/4) (1/2) 1)"
    "incomparable (MinAndCost DefaultAdapter) (mk_child (3/4) (1/2) 1) (mk_child 0 2 1)"
    by (simp_all add: incomparable_def MinAndCost_def)
  have nd: "estimate DefaultAdapter (mk_child (3/4) (1/2) 1) \<noteq> 1" by simp
  have "MinAndCost DefaultAdapter (mk_child (1/4) 1 1) (mk_child (3/4) 4 4)"
    using comparators_order_properties [OF wf] lt by blast
  moreover have "incomparable (MinAndCost DefaultAdapter) (mk_child (1/2) 1 1) (mk_child 0 2 1)"
    using comparators_order_properties [OF wf'] tie nd by blast
  ultimately show ?thesis using wf lt wf' tie by simp
qed

text \<open>
  The claim as stated fails: a child with estimate 1 and cost 0 ties under \<^verbatim>\<open>MinAndCost\<close>
  with every child, also with two children of which one is less than the other; so do a
  child with estimate 0 and cost 0 under \<^verbatim>\<open>MinOrCost\<close> and one with estimate 0 and
  strict cost 0 under \<^verbatim>\<open>MinOrStrictCost\<close>.
\<close>

theorem incomparability_not_transitive_counterexample:
  "well_formed DefaultAdapter (mk_child 0 1 1) \<and>
   well_formed DefaultAdapter (mk_child 1 0 0) \<and>
   well_formed DefaultAdapter (mk_child 0 2 2) \<and>
   incomparable (MinAndCost DefaultAdapter) (mk_child 0 1 1) (mk_child 1 0 0) \<and>
   incomparable (MinAndCost DefaultAdapter) (mk_child 1 0 0) (mk_child 0 2 2) \<and>
   MinAndCost DefaultAdapter (mk_child 0 1 1) (mk_child 0 2 2) \<and>
   well_formed DefaultAdapter (mk_child 1 1 1) \<and>
   well_formed DefaultAdapter (mk_child 0 0 0) \<and>
   well_formed DefaultAdapter (mk_child 1 2 2) \<and>
   incomparable (MinOrCost DefaultAdapter) (mk_child 1 1 1) (mk_child 0 0 0) \<and>
   incomparable (MinOrCost DefaultAdapter) (mk_child 0 0 0) (mk_child 1 2 2) \<and>
   MinOrCost DefaultAdapter (mk_child 1 1 1) (mk_child 1 2 2) \<and>
   incomparable (MinOrStrictCost DefaultAdapter) (mk_child 1 1 1) (mk_child 0 0 0) \<and>
   incomparable (MinOrStrictCost DefaultAdapter) (mk_child 0 0 0) (mk_child 1 2 2) \<and>
   MinOrStrictCost DefaultAdapter (mk_child 1 1 1) (mk_child 1 2 2)"
  by (simp add: well_formed_def incomparable_def MinAndCost_def MinOrCost_def MinOrStrictCost_def)

section \<open>The cost loop as a sum\<close>

lemma IndirectAdapter_simps [simp]:
  "estimate (IndirectAdapter adapter data) i = estimate adapter (data ! i)"
  "cost (IndirectAdapter adapter data) i = cost adapter (data ! i)"
  "strict_cost (IndirectAdapter adapter data) i = strict_cost adapter (data ! i)"
  by (simp_all add: IndirectAdapter_def)

lemma ordered_cost_loop_sum:
  "ordered_cost_loop F A ys f acc =
     acc + (\<Sum>k<length ys.
        F_flow F (add_children F A (take k ys) f) *
        (if F_strict F (add_children F A (take k ys) f)
         then strict_cost A (ys ! k) else cost A (ys ! k)))"
proof (induction ys arbitrary: f acc)
  case Nil
  then show ?case by simp
next
  case (Cons y ys)
  show ?case
    by (simp add: Cons.IH sum.lessThan_Suc_shift Let_def del: sum.lessThan_Suc cong: if_cong)
qed

lemma ordered_cost_of_sum:
  "ordered_cost_of F A ys f =
     (\<Sum>k<length ys.
        F_flow F (add_children F A (take k ys) f) *
        (if F_strict F (add_children F A (take k ys) f)
         then strict_cost A (ys ! k) else cost A (ys ! k)))"
  by (simp add: ordered_cost_of_def ordered_cost_loop_sum)

lemma and_strict_sum:
  "ordered_cost_of AND A ys (AndFlow 1 True) =
     (\<Sum>k<length ys. prod_list (map (estimate A) (take k ys)) *
        (if k = 0 then strict_cost A (ys ! k) else cost A (ys ! k)))"
  unfolding ordered_cost_of_sum
proof (rule sum.cong)
  fix k assume "k \<in> {..<length ys}"
  then have k: "k < length ys" by simp
  then have "take k ys = [] \<longleftrightarrow> k = 0" by (cases ys) auto
  then show "F_flow AND (add_children AND A (take k ys) (AndFlow 1 True)) *
        (if F_strict AND (add_children AND A (take k ys) (AndFlow 1 True))
         then strict_cost A (ys ! k) else cost A (ys ! k))
      = prod_list (map (estimate A) (take k ys)) *
        (if k = 0 then strict_cost A (ys ! k) else cost A (ys ! k))"
    by (simp add: AndFlow_flow_def AndFlow_strict_def m_flow_add_children_AND
        m_first_add_children m_strict_add_children AndFlow_def)
qed simp

lemma shift_up_eq:
  "i < length xs \<Longrightarrow> shift_up xs i = hd xs # take i xs @ drop (Suc i) xs"
proof (induction i arbitrary: xs)
  case 0
  then show ?case by (cases xs) simp_all
next
  case (Suc i)
  let ?xs' = "xs[Suc i := xs ! i]"
  have "shift_up xs (Suc i) = shift_up ?xs' i" by simp
  also have "\<dots> = hd ?xs' # take i ?xs' @ drop (Suc i) ?xs'"
    using Suc.prems by (intro Suc.IH) simp
  also have "hd ?xs' = hd xs" using Suc.prems by (cases xs) simp_all
  also have "take i ?xs' = take i xs" by simp
  also have "drop (Suc i) ?xs' = xs ! i # drop (Suc (Suc i)) xs"
    using Suc.prems by (simp add: drop_update_swap flip: Cons_nth_drop_Suc)
  finally show ?case using Suc.prems by (simp add: take_Suc_conv_app_nth)
qed

lemma shift_up_move_to_front:
  "i < length xs \<Longrightarrow> (shift_up xs i)[0 := xs ! i] = xs ! i # take i xs @ drop (Suc i) xs"
  by (simp add: shift_up_eq)

lemma mset_move_to_front:
  assumes "i < length xs"
  shows "mset (xs ! i # take i xs @ drop (Suc i) xs) = mset xs"
proof -
  have "xs = take i xs @ xs ! i # drop (Suc i) xs"
    using assms by (simp add: id_take_nth_drop [symmetric])
  then have "mset xs = mset (take i xs @ xs ! i # drop (Suc i) xs)" by simp
  then show ?thesis by simp
qed



section \<open>The strict child of an AND node\<close>

lemma est_before_0 [simp]: "est_before adapter children 0 = 1"
  by (simp add: est_before_def)

lemma cost_before_0 [simp]: "cost_before adapter children 0 = 0"
  by (simp add: cost_before_def)

lemma est_before_Suc:
  "n < length children \<Longrightarrow>
   est_before adapter children (Suc n) = est_before adapter children n * estimate adapter (children ! n)"
  by (simp add: est_before_def take_Suc_conv_app_nth)

lemma cost_before_Suc:
  "cost_before adapter children (Suc n) =
     cost_before adapter children n + est_before adapter children n * cost adapter (children ! n)"
  by (simp add: cost_before_def)

lemma strict_diff_0:
  "strict_diff adapter children 0 = strict_cost adapter (children ! 0) - cost adapter (children ! 0)"
  by (simp add: strict_diff_def)

lemma select_inv_init: "select_inv adapter children 0 select_init"
  by (simp add: select_inv_def select_init_def)

lemma select_inv_step:
  assumes inv: "select_inv adapter children n s" and n: "n < length children"
  shows "select_inv adapter children (Suc n) (select_step adapter s (children ! n))"
proof (cases "n = 0")
  case True
  with n have "0 < length children" by simp
  with inv True show ?thesis
    by (simp add: select_inv_def select_step_def Let_def est_before_Suc
        cost_before_Suc strict_diff_0)
next
  case False
  let ?d = "strict_diff adapter children n"
  from inv False have
    i: "sel_idx s = n" and c: "sel_cost_so_far s = cost_before adapter children n" and
    e: "sel_est s = est_before adapter children n" and
    b: "sel_best_idx s < n" and
    bd: "strict_diff adapter children (sel_best_idx s) = sel_best_diff s" and
    le: "\<forall>j<n. sel_best_diff s \<le> strict_diff adapter children j" and
    lt: "\<forall>j<sel_best_idx s. sel_best_diff s < strict_diff adapter children j"
    by (simp_all add: select_inv_def)
  have my: "(strict_cost adapter (children ! n) + estimate adapter (children ! n) * sel_cost_so_far s)
             - (sel_cost_so_far s + sel_est s * cost adapter (children ! n)) = ?d"
    by (simp add: strict_diff_def c e)
  show ?thesis
  proof (cases "?d < sel_best_diff s")
    case True
    have "\<forall>j<Suc n. ?d \<le> strict_diff adapter children j"
      using True le by (auto simp: less_Suc_eq)
    moreover have "\<forall>j<n. ?d < strict_diff adapter children j"
      using True le by fastforce
    ultimately show ?thesis
      using True False i c e my
      by (simp add: select_inv_def select_step_def Let_def est_before_Suc [OF n]
          cost_before_Suc)
  next
    case nless: False
    have "\<forall>j<Suc n. sel_best_diff s \<le> strict_diff adapter children j"
      using nless le by (auto simp: less_Suc_eq)
    then show ?thesis
      using nless False i c e my b bd lt
      by (simp add: select_inv_def select_step_def Let_def est_before_Suc [OF n]
          cost_before_Suc)
  qed
qed

lemma select_inv_loop:
  assumes "select_inv adapter children n s" and "rest = drop n children"
    and "n \<le> length children"
  shows "select_inv adapter children (length children) (select_loop adapter rest s)"
  using assms
proof (induction rest arbitrary: n s)
  case Nil
  then have "n = length children" by simp
  with Nil show ?case by simp
next
  case (Cons x rest)
  from Cons.prems(2) have n: "n < length children"
    by (metis drop_all list.distinct(1) not_le)
  with Cons.prems(2) have x: "x = children ! n" and rest: "rest = drop (Suc n) children"
    by (simp_all flip: Cons_nth_drop_Suc)
  have step: "select_inv adapter children (Suc n) (select_step adapter s x)"
    unfolding x using Cons.prems(1) n by (rule select_inv_step)
  from n have "Suc n \<le> length children" by simp
  from Cons.IH [OF step rest this] show ?case by simp
qed

lemma select_inv_final:
  "select_inv adapter children (length children) (select_loop adapter children select_init)"
  by (rule select_inv_loop [OF select_inv_init]) simp_all

lemma est_before_Cons:
  "est_before A (y # ys) (Suc k) = estimate A y * est_before A ys k"
  by (simp add: est_before_def)

lemma cost_before_Cons:
  "cost_before A (y # ys) (Suc n) = cost A y + estimate A y * cost_before A ys n"
  by (simp add: cost_before_def sum.lessThan_Suc_shift est_before_Cons sum_distrib_left
      mult.assoc del: sum.lessThan_Suc)

lemma est_before_length_append:
  "est_before A (xs @ ys) (length xs) = est_before A xs (length xs)"
  by (simp add: est_before_def)

lemma cost_before_append:
  "cost_before A (xs @ ys) (length xs + n) =
     cost_before A xs (length xs) + est_before A xs (length xs) * cost_before A ys n"
proof (induction xs)
  case Nil
  then show ?case by simp
next
  case (Cons x xs)
  have "cost_before A ((x # xs) @ ys) (length (x # xs) + n)
          = cost A x + estimate A x * cost_before A (xs @ ys) (length xs + n)"
    by (simp add: cost_before_Cons)
  also have "\<dots> = cost A x + estimate A x *
       (cost_before A xs (length xs) + est_before A xs (length xs) * cost_before A ys n)"
    by (simp only: Cons.IH)
  also have "\<dots> = cost_before A (x # xs) (length (x # xs))
                  + est_before A (x # xs) (length (x # xs)) * cost_before A ys n"
    by (simp add: cost_before_Cons est_before_Cons algebra_simps)
  finally show ?case .
qed

lemma cost_before_prefix:
  "cost_before A (xs @ ys) (length xs) = cost_before A xs (length xs)"
  using cost_before_append [of A xs ys 0] by simp

lemma nonstrict_loop:
  "\<not> AndFlow_strict f \<Longrightarrow>
   ordered_cost_loop AND A ys f acc = acc + m_flow f * cost_before A ys (length ys)"
proof (induction ys arbitrary: f acc)
  case Nil
  then show ?case by simp
next
  case (Cons y ys)
  have "\<not> AndFlow_strict (AndFlow_add f (estimate A y))"
    by (simp add: AndFlow_strict_def AndFlow_add_def)
  from Cons.IH [OF this] Cons.prems show ?case
    by (simp add: Let_def AndFlow_flow_def AndFlow_add_def cost_before_Cons algebra_simps)
qed

lemma nonstrict_total:
  "ordered_cost_of AND A xs (AndFlow 1 False) = cost_before A xs (length xs)"
  by (simp add: ordered_cost_of_def nonstrict_loop AndFlow_strict_def AndFlow_def)

lemma strict_move_to_front_split:
  "ordered_cost_of AND A (a # pre @ post) (AndFlow 1 True)
     = ordered_cost_of AND A (pre @ a # post) (AndFlow 1 False)
       + strict_diff A (pre @ a # post) (length pre)"
proof -
  let ?cp = "cost_before A pre (length pre)" and ?ep = "est_before A pre (length pre)"
  let ?cq = "cost_before A post (length post)"
  have total: "ordered_cost_of AND A (pre @ a # post) (AndFlow 1 False)
                 = ?cp + ?ep * (cost A a + estimate A a * ?cq)"
    using cost_before_append [of A pre "a # post" "Suc (length post)"]
    by (simp add: nonstrict_total cost_before_Cons)
  have rot: "ordered_cost_of AND A (a # pre @ post) (AndFlow 1 True)
               = strict_cost A a + estimate A a * (?cp + ?ep * ?cq)"
    using cost_before_append [of A pre post "length post"]
    by (simp add: ordered_cost_of_def Let_def AndFlow_strict_def AndFlow_def
        AndFlow_flow_def AndFlow_add_def nonstrict_loop)
  have diff: "strict_diff A (pre @ a # post) (length pre)
                = (strict_cost A a + estimate A a * ?cp) - (?cp + ?ep * cost A a)"
    by (simp add: strict_diff_def cost_before_prefix est_before_length_append)
  show ?thesis unfolding total rot diff by (simp add: algebra_simps)
qed

lemma strict_move_to_front:
  assumes i: "i < length xs"
  shows "ordered_cost_of AND A (move_to_front i xs) (AndFlow 1 True)
           = ordered_cost_of AND A xs (AndFlow 1 False) + strict_diff A xs i"
proof -
  obtain pre a post where xs: "xs = pre @ a # post" and l: "length pre = i"
    using i id_take_nth_drop [of i xs] by (metis length_take min.absorb2 less_imp_le)
  have "move_to_front i xs = a # pre @ post"
    unfolding xs move_to_front_def using l by (simp add: nth_append)
  then show ?thesis
    using strict_move_to_front_split [of A a pre post] by (simp add: xs l)
qed

text \<open>
  Claim C1, as the code has it. For a non-empty child sequence
  \<^verbatim>\<open>select_strict_and_child\<close> returns a position of the sequence at which \<open>strict_diff\<close>
  is least, and the first such position; \<open>strict_diff\<close> at \<open>i\<close> is the strict AND cost
  of the sequence with child \<open>i\<close> moved to the front minus the non-strict AND cost of
  the sequence as it is, so the returned child is one whose promotion gives the least
  strict cost. The value of position \<open>i\<close> is
  \<open>strict_cost(i) + estimate(i) * cost_so_far - (cost_so_far + est_so_far * cost(i))\<close>:
  the child's own cost is weighted by the product of the estimates before it (for
  position 0 that product is 1 and \<open>cost_so_far\<close> is 0, which gives
  \<open>strict_cost(0) - cost(0)\<close>).
\<close>

theorem select_strict_and_child_minimal:
  assumes "children \<noteq> []"
  shows "select_strict_and_child adapter children < length children \<and>
    (\<forall>j<length children.
       strict_diff adapter children (select_strict_and_child adapter children)
         \<le> strict_diff adapter children j) \<and>
    (\<forall>j<select_strict_and_child adapter children.
       strict_diff adapter children (select_strict_and_child adapter children)
         < strict_diff adapter children j) \<and>
    (\<forall>j<length children.
       ordered_cost_of AND adapter
         (move_to_front (select_strict_and_child adapter children) children) (AndFlow 1 True)
       \<le> ordered_cost_of AND adapter (move_to_front j children) (AndFlow 1 True))"
proof -
  let ?k = "select_strict_and_child adapter children"
  have k: "?k < length children"
    and least: "\<forall>j<length children. strict_diff adapter children ?k \<le> strict_diff adapter children j"
    and first: "\<forall>j<?k. strict_diff adapter children ?k < strict_diff adapter children j"
    using assms select_inv_final [of adapter children]
    by (auto simp: select_inv_def select_strict_and_child_def)
  have "\<forall>j<length children.
       ordered_cost_of AND adapter (move_to_front ?k children) (AndFlow 1 True)
       \<le> ordered_cost_of AND adapter (move_to_front j children) (AndFlow 1 True)"
    using k least by (simp add: strict_move_to_front)
  with k least first show ?thesis by blast
qed

theorem select_strict_and_child_minimal_witness:
  "[mk_child (1/2) 1 1, mk_child (1/2) 10 4] \<noteq> [] \<and>
   select_strict_and_child DefaultAdapter [mk_child (1/2) 1 1, mk_child (1/2) 10 4] = 1 \<and>
   strict_diff DefaultAdapter [mk_child (1/2) 1 1, mk_child (1/2) 10 4] 1
     \<le> strict_diff DefaultAdapter [mk_child (1/2) 1 1, mk_child (1/2) 10 4] 0 \<and>
   strict_diff DefaultAdapter [mk_child (1/2) 1 1, mk_child (1/2) 10 4] 1 = - 3 / 2"
proof -
  have ne: "[mk_child (1/2) 1 1, mk_child (1/2) 10 4] \<noteq> []" by simp
  have sel: "select_strict_and_child DefaultAdapter [mk_child (1/2) 1 1, mk_child (1/2) 10 4] = 1"
    by (simp add: select_strict_and_child_def select_init_def select_step_def)
  have v: "strict_diff DefaultAdapter [mk_child (1/2) 1 1, mk_child (1/2) 10 4] 1 = - 3 / 2"
    by (simp add: strict_diff_def cost_before_def est_before_def)
  from select_strict_and_child_minimal [OF ne, of DefaultAdapter]
  have "strict_diff DefaultAdapter [mk_child (1/2) 1 1, mk_child (1/2) 10 4]
          (select_strict_and_child DefaultAdapter [mk_child (1/2) 1 1, mk_child (1/2) 10 4])
        \<le> strict_diff DefaultAdapter [mk_child (1/2) 1 1, mk_child (1/2) 10 4] 0"
    by simp
  with sel v show ?thesis by simp
qed


text \<open>
  The claim as stated, with the raw cost of the candidate, fails: for the children
  (estimate 0.5, cost 1, strict cost 1) and (estimate 0.5, cost 10, strict cost 6), in
  \<^verbatim>\<open>MinAndCost\<close> order, the code returns 0, while the value with the raw cost is
  smaller at position 1 (\<open>-4.5\<close>) than at position 0 (\<open>0\<close>).
\<close>

theorem select_strict_and_child_raw_cost_counterexample:
  "well_formed DefaultAdapter (mk_child (1/2) 1 1) \<and>
   well_formed DefaultAdapter (mk_child (1/2) 10 6) \<and>
   flow_sort MinAndCost DefaultAdapter [mk_child (1/2) 1 1, mk_child (1/2) 10 6]
     = [mk_child (1/2) 1 1, mk_child (1/2) 10 6] \<and>
   select_strict_and_child DefaultAdapter [mk_child (1/2) 1 1, mk_child (1/2) 10 6] = 0 \<and>
   spec_diff DefaultAdapter [mk_child (1/2) 1 1, mk_child (1/2) 10 6] 1
     < spec_diff DefaultAdapter [mk_child (1/2) 1 1, mk_child (1/2) 10 6] 0"
  by (simp add: well_formed_def flow_sort_def MinAndCost_def select_strict_and_child_def
      select_init_def select_step_def spec_diff_def cost_before_def)


section \<open>\<^verbatim>\<open>cost_of\<close>\<close>

lemma select_strict_and_child_less:
  "children \<noteq> [] \<Longrightarrow> select_strict_and_child adapter children < length children"
  using select_inv_final [of adapter children]
  by (auto simp: select_inv_def select_strict_and_child_def)

lemma AndFlow_sort_strict:
  assumes "1 < length children"
  shows "AndFlow_sort adapter children True =
     move_to_front
       (select_strict_and_child adapter (flow_sort MinAndCost adapter children))
       (flow_sort MinAndCost adapter children)"
proof -
  let ?s = "flow_sort MinAndCost adapter children"
  have len: "1 < length ?s" using assms by (simp add: flow_sort_def length_std_sort)
  then have "?s \<noteq> []" by auto
  then have "select_strict_and_child adapter ?s < length ?s"
    by (rule select_strict_and_child_less)
  then show ?thesis
    using len by (simp add: AndFlow_sort_def Let_def shift_up_move_to_front move_to_front_def)
qed

lemma mset_AndFlow_sort: "mset (AndFlow_sort adapter children strict) = mset children"
proof (cases "strict \<and> 1 < length children")
  case True
  let ?s = "flow_sort MinAndCost adapter children"
  have "?s \<noteq> []" using True by (auto simp: flow_sort_def length_std_sort simp flip: length_greater_0_conv)
  then have "select_strict_and_child adapter ?s < length ?s"
    by (rule select_strict_and_child_less)
  then have "mset (AndFlow_sort adapter children True) = mset ?s"
    using True
    by (simp add: AndFlow_sort_strict move_to_front_def mset_move_to_front
        del: mset.simps mset_append)
  with True show ?thesis by (simp add: flow_sort_def mset_std_sort)
next
  case False
  then show ?thesis
    by (auto simp: AndFlow_sort_def Let_def flow_sort_def mset_std_sort length_std_sort)
qed

lemma mset_sort_partial: "mset (sort_partial ORDER adapter children offset) = mset children"
proof -
  have "mset (take offset children @ std_sort (ORDER adapter) (drop offset children))
          = mset (take offset children) + mset (drop offset children)"
    by (simp add: mset_std_sort)
  also have "\<dots> = mset children"
    by (metis append_take_drop_id mset_append)
  finally show ?thesis by (simp add: sort_partial_def)
qed

lemma mset_F_sort: "mset (F_sort F adapter children strict) = mset children"
  by (cases F)
     (simp_all add: mset_AndFlow_sort OrFlow_sort_def flow_sort_def mset_std_sort
        AndNotFlow_sort_def mset_sort_partial)

lemma cost_order_AND_nonstrict:
  "cost_order AND adapter children False =
     flow_sort MinAndCost (IndirectAdapter adapter children) (make_index children)"
  by (simp add: cost_order_def AndFlow_sort_def)

lemma length_cost_order: "length (cost_order F adapter children strict) = length children"
proof -
  have "size (mset (cost_order F adapter children strict)) = size (mset [0..<length children])"
    by (simp only: cost_order_def mset_F_sort make_index_def)
  then show ?thesis by simp
qed

lemma cost_order_AND_sorted:
  "successively (\<lambda>a b. \<not> MinAndCost (IndirectAdapter adapter children) b a)
     (cost_order AND adapter children False)"
  unfolding cost_order_AND_nonstrict flow_sort_def
  by (rule successively_std_sort) (rule MinAndCost_asym)

lemma cost_order_AND_strict:
  "cost_order AND adapter children True =
     (if 1 < length children
      then move_to_front
             (select_strict_and_child (IndirectAdapter adapter children)
                (cost_order AND adapter children False))
             (cost_order AND adapter children False)
      else cost_order AND adapter children False)"
proof (cases "1 < length children")
  case True
  then have "1 < length (make_index children)" by (simp add: make_index_def)
  from AndFlow_sort_strict [OF this] True show ?thesis
    by (simp add: cost_order_def AndFlow_sort_def)
next
  case False
  then show ?thesis
    by (simp add: cost_order_def AndFlow_sort_def Let_def flow_sort_def length_std_sort
        make_index_def)
qed

lemma cost_order_OR_sorted:
  "successively (\<lambda>a b. \<not> MinOrCost (IndirectAdapter adapter children) b a)
     (cost_order OR adapter children False)"
  by (simp add: cost_order_def OrFlow_sort_def flow_sort_def successively_std_sort
      MinOrCost_asym)

lemma cost_order_OR_strict_sorted:
  "successively (\<lambda>a b. \<not> MinOrStrictCost (IndirectAdapter adapter children) b a)
     (cost_order OR adapter children True)"
  by (simp add: cost_order_def OrFlow_sort_def flow_sort_def successively_std_sort
      MinOrStrictCost_asym)

lemma cost_order_ANDNOT_first:
  "take 1 (cost_order ANDNOT adapter children strict) = take 1 [0..<length children]"
  by (simp add: cost_order_def AndNotFlow_sort_def sort_partial_def make_index_def)

lemma cost_order_ANDNOT_sorted:
  "successively (\<lambda>a b. \<not> MinOrCost (IndirectAdapter adapter children) b a)
     (drop 1 (cost_order ANDNOT adapter children strict))"
proof (cases "1 < length children")
  case True
  then show ?thesis
    by (simp add: cost_order_def AndNotFlow_sort_def sort_partial_def make_index_def
        successively_std_sort MinOrCost_asym)
next
  case False
  then have "length (drop 1 [0..<length children]) = 0" by simp
  then have "drop 1 [0..<length children] = []" by (simp only: length_0_conv)
  with False show ?thesis
    by (simp add: cost_order_def AndNotFlow_sort_def sort_partial_def make_index_def)
qed


text \<open>
  Claim C2. \<^verbatim>\<open>cost_of(children, strict)\<close> is \<^verbatim>\<open>ordered_cost_of\<close> on the order the node's
  \<^verbatim>\<open>sort\<close> gives to the positions of the children, and \<^verbatim>\<open>ordered_cost_of\<close> on any
  order is the sum of \<open>flow()\<close> times the cost of the child, both taken before the child's
  estimate is added: the strict cost when \<open>strict()\<close> holds then, the cost otherwise. For
  an AND node with \<open>strict = true\<close> the first child of the order is charged its strict
  cost and every later child its cost times the product of the estimates of the children
  before it. The order is a sorted permutation of the positions: for AND in
  \<^verbatim>\<open>MinAndCost\<close> order, and with \<open>strict = true\<close> and more than one child that order
  with the selected child moved to the front; for OR in \<^verbatim>\<open>MinOrCost\<close> order, with
  \<open>strict = true\<close> in \<^verbatim>\<open>MinOrStrictCost\<close> order; for AND-NOT position 0 first and the
  other positions in \<^verbatim>\<open>MinOrCost\<close> order.
\<close>

theorem cost_of_weighted_sum:
  "ordered_cost_of F (IndirectAdapter adapter children) order (F_new F 1 strict) =
     (\<Sum>k<length order.
        F_flow F (add_children F (IndirectAdapter adapter children) (take k order)
                    (F_new F 1 strict)) *
        (if F_strict F (add_children F (IndirectAdapter adapter children) (take k order)
                    (F_new F 1 strict))
         then strict_cost adapter (children ! (order ! k))
         else cost adapter (children ! (order ! k)))) \<and>
   cost_of F adapter children strict =
     ordered_cost_of F (IndirectAdapter adapter children)
       (cost_order F adapter children strict) (F_new F 1 strict) \<and>
   cost_of F adapter children strict =
     (\<Sum>k<length (cost_order F adapter children strict).
        F_flow F (add_children F (IndirectAdapter adapter children)
                    (take k (cost_order F adapter children strict)) (F_new F 1 strict)) *
        (if F_strict F (add_children F (IndirectAdapter adapter children)
                    (take k (cost_order F adapter children strict)) (F_new F 1 strict))
         then strict_cost adapter (children ! (cost_order F adapter children strict ! k))
         else cost adapter (children ! (cost_order F adapter children strict ! k)))) \<and>
   cost_of AND adapter children True =
     (\<Sum>k<length (cost_order AND adapter children True).
        prod_list (map (\<lambda>i. estimate adapter (children ! i))
                    (take k (cost_order AND adapter children True))) *
        (if k = 0
         then strict_cost adapter (children ! (cost_order AND adapter children True ! k))
         else cost adapter (children ! (cost_order AND adapter children True ! k)))) \<and>
   mset (cost_order F adapter children strict) = mset [0..<length children] \<and>
   successively (\<lambda>a b. \<not> MinAndCost (IndirectAdapter adapter children) b a)
     (cost_order AND adapter children False) \<and>
   cost_order AND adapter children True =
     (if 1 < length children
      then move_to_front
             (select_strict_and_child (IndirectAdapter adapter children)
                (cost_order AND adapter children False))
             (cost_order AND adapter children False)
      else cost_order AND adapter children False) \<and>
   successively (\<lambda>a b. \<not> MinOrCost (IndirectAdapter adapter children) b a)
     (cost_order OR adapter children False) \<and>
   successively (\<lambda>a b. \<not> MinOrStrictCost (IndirectAdapter adapter children) b a)
     (cost_order OR adapter children True) \<and>
   take 1 (cost_order ANDNOT adapter children strict) = take 1 [0..<length children] \<and>
   successively (\<lambda>a b. \<not> MinOrCost (IndirectAdapter adapter children) b a)
     (drop 1 (cost_order ANDNOT adapter children strict))"
proof -
  let ?A = "IndirectAdapter adapter children"
  have fold: "ordered_cost_of F ?A order (F_new F 1 strict) =
     (\<Sum>k<length order.
        F_flow F (add_children F ?A (take k order) (F_new F 1 strict)) *
        (if F_strict F (add_children F ?A (take k order) (F_new F 1 strict))
         then strict_cost adapter (children ! (order ! k))
         else cost adapter (children ! (order ! k))))" for order
    by (simp add: ordered_cost_of_sum cong: if_cong)
  have call: "cost_of F adapter children strict =
     ordered_cost_of F ?A (cost_order F adapter children strict) (F_new F 1 strict)"
    by (simp add: cost_of_def cost_order_def Let_def)
  have general: "cost_of F adapter children strict =
     (\<Sum>k<length (cost_order F adapter children strict).
        F_flow F (add_children F ?A (take k (cost_order F adapter children strict))
                    (F_new F 1 strict)) *
        (if F_strict F (add_children F ?A (take k (cost_order F adapter children strict))
                    (F_new F 1 strict))
         then strict_cost adapter (children ! (cost_order F adapter children strict ! k))
         else cost adapter (children ! (cost_order F adapter children strict ! k))))"
    unfolding call by (rule fold)
  have "cost_of AND adapter children True =
          ordered_cost_of AND ?A (cost_order AND adapter children True) (AndFlow 1 True)"
    by (simp add: cost_of_def cost_order_def Let_def)
  also have "\<dots> =
     (\<Sum>k<length (cost_order AND adapter children True).
        prod_list (map (\<lambda>i. estimate adapter (children ! i))
                    (take k (cost_order AND adapter children True))) *
        (if k = 0
         then strict_cost adapter (children ! (cost_order AND adapter children True ! k))
         else cost adapter (children ! (cost_order AND adapter children True ! k))))"
    by (simp add: and_strict_sum IndirectAdapter_def cong: if_cong)
  finally have strict_and: "cost_of AND adapter children True =
     (\<Sum>k<length (cost_order AND adapter children True).
        prod_list (map (\<lambda>i. estimate adapter (children ! i))
                    (take k (cost_order AND adapter children True))) *
        (if k = 0
         then strict_cost adapter (children ! (cost_order AND adapter children True ! k))
         else cost adapter (children ! (cost_order AND adapter children True ! k))))" .
  have perm: "mset (cost_order F adapter children strict) = mset [0..<length children]"
    by (simp only: cost_order_def mset_F_sort make_index_def)
  show ?thesis
    by (intro conjI fold call general strict_and perm cost_order_AND_sorted
        cost_order_AND_strict cost_order_OR_sorted cost_order_OR_strict_sorted
        cost_order_ANDNOT_first cost_order_ANDNOT_sorted)
qed

theorem cost_of_weighted_sum_witness:
  "cost_order AND DefaultAdapter [mk_child (1/2) 3 3, mk_child (1/4) 1 2] False = [1, 0] \<and>
   cost_order AND DefaultAdapter [mk_child (1/2) 3 3, mk_child (1/4) 1 2] True = [1, 0] \<and>
   cost_of AND DefaultAdapter [mk_child (1/2) 3 3, mk_child (1/4) 1 2] True = 11/4 \<and>
   cost_order AND DefaultAdapter
     [mk_child (1/2) 3 3, mk_child (1/4) 1 2, mk_child (9/10) 2 1] False = [1, 0, 2] \<and>
   cost_order AND DefaultAdapter
     [mk_child (1/2) 3 3, mk_child (1/4) 1 2, mk_child (9/10) 2 1] True = [2, 1, 0] \<and>
   cost_of AND DefaultAdapter
     [mk_child (1/2) 3 3, mk_child (1/4) 1 2, mk_child (9/10) 2 1] True = 103/40"
proof -
  let ?cs = "[mk_child (1/2) 3 3, mk_child (1/4) 1 2]"
  let ?ds = "[mk_child (1/2) 3 3, mk_child (1/4) 1 2, mk_child (9/10) 2 1]"
  have ord: "cost_order AND DefaultAdapter ?cs False = [1, 0]"
    by (simp add: cost_order_def make_index_def AndFlow_sort_def flow_sort_def MinAndCost_def)
  have sel: "select_strict_and_child (IndirectAdapter DefaultAdapter ?cs) [Suc 0, 0] = 0"
    by (simp add: select_strict_and_child_def select_init_def select_step_def)
  have ord3: "cost_order AND DefaultAdapter ?ds False = [1, 0, 2]"
    by (simp add: cost_order_def make_index_def AndFlow_sort_def flow_sort_def MinAndCost_def
        upt_rec)
  have sel3: "select_strict_and_child (IndirectAdapter DefaultAdapter ?ds) [Suc 0, 0, 2] = 2"
    by (simp add: select_strict_and_child_def select_init_def select_step_def)
  note t = cost_of_weighted_sum [of AND DefaultAdapter ?cs "[]" True]
  note t3 = cost_of_weighted_sum [of AND DefaultAdapter ?ds "[]" True]
  note order = conjunct2 [THEN conjunct2, THEN conjunct2, THEN conjunct2, THEN conjunct2,
      THEN conjunct2, THEN conjunct1]
  note charge = conjunct2 [THEN conjunct2, THEN conjunct2, THEN conjunct1]
  have strict: "cost_order AND DefaultAdapter ?cs True = [1, 0]"
    using t [THEN order] by (simp add: ord sel move_to_front_def)
  have strict3: "cost_order AND DefaultAdapter ?ds True = [2, 1, 0]"
    using t3 [THEN order] by (simp add: ord3 sel3 move_to_front_def)
  have c: "cost_of AND DefaultAdapter ?cs True = 11/4"
    using t [THEN charge] by (simp add: strict lessThan_Suc numeral_2_eq_2)
  have c3: "cost_of AND DefaultAdapter ?ds True = 103/40"
    using t3 [THEN charge] by (simp add: strict3 lessThan_Suc numeral_3_eq_3)
  from ord strict c ord3 strict3 c3 show ?thesis by simp
qed


section \<open>The exchange property of \<^verbatim>\<open>MinAndCost\<close>\<close>

lemma swap_adjacent_split:
  assumes "Suc i < length xs"
  shows "xs = take i xs @ xs ! i # xs ! Suc i # drop (Suc (Suc i)) xs"
    and "swap_adjacent i xs = take i xs @ xs ! Suc i # xs ! i # drop (Suc (Suc i)) xs"
proof -
  show s: "xs = take i xs @ xs ! i # xs ! Suc i # drop (Suc (Suc i)) xs"
    using assms by (simp add: Cons_nth_drop_Suc Suc_lessD)
  have l: "length (take i xs) = i" using assms by simp
  have "swap_adjacent i (take i xs @ xs ! i # xs ! Suc i # drop (Suc (Suc i)) xs)
          = take i xs @ xs ! Suc i # xs ! i # drop (Suc (Suc i)) xs"
    unfolding swap_adjacent_def using l
    by (simp add: list_update_append nth_append)
  with s show "swap_adjacent i xs = take i xs @ xs ! Suc i # xs ! i # drop (Suc (Suc i)) xs"
    by simp
qed

lemma add_children_append:
  "add_children F A (xs @ ys) f = add_children F A ys (add_children F A xs f)"
  by (induction xs arbitrary: f) simp_all

lemma ordered_cost_loop_append:
  "ordered_cost_loop F A (xs @ ys) f acc =
     ordered_cost_loop F A ys (add_children F A xs f) (ordered_cost_loop F A xs f acc)"
  by (induction xs arbitrary: f acc) (simp_all add: Let_def)

lemma ordered_cost_loop_acc:
  "ordered_cost_loop F A ys f acc = acc + ordered_cost_loop F A ys f 0"
  by (simp add: ordered_cost_loop_sum)

lemma and_flow_nonneg:
  assumes "\<forall>c\<in>set xs. 0 \<le> estimate A c" "0 \<le> m_flow f"
  shows "0 \<le> m_flow (add_children AND A xs f)"
  using assms by (induction xs arbitrary: f) (simp_all add: AndFlow_add_def)

lemma AndFlow_add_commute:
  "AndFlow_add (AndFlow_add f x) y = AndFlow_add (AndFlow_add f y) x"
  by (simp add: AndFlow_add_def mult_ac)

lemma and_exchange:
  assumes sorted: "\<not> MinAndCost A b a"
    and flow: "0 \<le> m_flow g" and ns: "\<not> m_strict g"
  shows "ordered_cost_loop AND A (a # b # post) g acc
           \<le> ordered_cost_loop AND A (b # a # post) g acc"
proof -
  let ?g2 = "AndFlow_add (AndFlow_add g (estimate A a)) (estimate A b)"
  have l: "ordered_cost_loop AND A (a # b # post) g acc =
      (acc + m_flow g * cost A a + m_flow g * estimate A a * cost A b)
        + ordered_cost_loop AND A post ?g2 0"
    using ns
    by (simp add: Let_def AndFlow_strict_def AndFlow_flow_def AndFlow_add_def
        ordered_cost_loop_acc [of _ _ post _ "_ + _"])
  have r: "ordered_cost_loop AND A (b # a # post) g acc =
      (acc + m_flow g * cost A b + m_flow g * estimate A b * cost A a)
        + ordered_cost_loop AND A post ?g2 0"
    using ns
    by (simp add: Let_def AndFlow_strict_def AndFlow_flow_def
        AndFlow_add_commute [of g "estimate A b"]
        ordered_cost_loop_acc [of _ _ post _ "_ + _"])
       (simp add: AndFlow_add_def)
  have "(1 - estimate A b) * cost A a \<le> (1 - estimate A a) * cost A b"
    using sorted by (simp add: MinAndCost_def)
  then have "cost A a + estimate A a * cost A b \<le> cost A b + estimate A b * cost A a"
    by (simp add: algebra_simps)
  then have "m_flow g * (cost A a + estimate A a * cost A b)
               \<le> m_flow g * (cost A b + estimate A b * cost A a)"
    using flow by (rule mult_left_mono)
  then show ?thesis unfolding l r by (simp add: algebra_simps)
qed

lemma sorted_exchange:
  assumes succ: "successively (\<lambda>a b. \<not> MinAndCost A b a) ys"
    and nonneg: "\<forall>c\<in>set ys. 0 \<le> estimate A c"
    and i: "Suc i < length ys"
  shows "ordered_cost_of AND A ys (AndFlow 1 False)
           \<le> ordered_cost_of AND A (swap_adjacent i ys) (AndFlow 1 False)"
proof -
  let ?pre = "take i ys" and ?post = "drop (Suc (Suc i)) ys"
  let ?g = "add_children AND A ?pre (AndFlow 1 False)"
  have inv: "\<not> MinAndCost A (ys ! Suc i) (ys ! i)"
    using successively_nth [OF succ i] .
  have "\<forall>c\<in>set ?pre. 0 \<le> estimate A c"
    using nonneg by (meson in_set_takeD)
  then have flow: "0 \<le> m_flow ?g"
    by (rule and_flow_nonneg) (simp add: AndFlow_def)
  have ns: "\<not> m_strict ?g"
    by (simp add: m_strict_add_children AndFlow_def)
  have "ordered_cost_loop AND A (?pre @ ys ! i # ys ! Suc i # ?post) (AndFlow 1 False) 0
          \<le> ordered_cost_loop AND A (?pre @ ys ! Suc i # ys ! i # ?post) (AndFlow 1 False) 0"
    unfolding ordered_cost_loop_append by (rule and_exchange [OF inv flow ns])
  then show ?thesis
    unfolding ordered_cost_of_def
    using swap_adjacent_split [OF i] by simp
qed

text \<open>
  Claim C3, as the code has it. In exact arithmetic: for children with estimates in
  \<open>[0,1]\<close> and costs at least 0, and any reordering of them that is in \<^verbatim>\<open>MinAndCost\<close>
  order (no child is less than the child before it, which is how sorting by
  \<^verbatim>\<open>MinAndCost\<close> leaves them), exchanging two adjacent children does not decrease the
  non-strict AND cost (\<^verbatim>\<open>ordered_cost_of\<close> from \<^verbatim>\<open>AndFlow(1.0, false)\<close>).
\<close>

theorem min_and_cost_exchange:
  assumes "\<forall>c\<in>set children. well_formed adapter c"
    and "mset ys = mset children"
    and "successively (\<lambda>a b. \<not> MinAndCost adapter b a) ys"
    and "Suc i < length ys"
  shows "ordered_cost_of AND adapter ys (AndFlow 1 False)
           \<le> ordered_cost_of AND adapter (swap_adjacent i ys) (AndFlow 1 False)"
proof (rule sorted_exchange)
  show "successively (\<lambda>a b. \<not> MinAndCost adapter b a) ys" by (rule assms(3))
  have "set ys = set children" using assms(2) by (rule mset_eq_setD)
  with assms(1) show "\<forall>c\<in>set ys. 0 \<le> estimate adapter c"
    by (simp add: well_formed_def)
  show "Suc i < length ys" by (rule assms(4))
qed

theorem min_and_cost_exchange_witness:
  "well_formed DefaultAdapter (mk_child (1/2) 3 3) \<and>
   well_formed DefaultAdapter (mk_child (1/4) 1 1) \<and>
   flow_sort MinAndCost DefaultAdapter [mk_child (1/2) 3 3, mk_child (1/4) 1 1]
     = [mk_child (1/4) 1 1, mk_child (1/2) 3 3] \<and>
   mset [mk_child (1/4) 1 1, mk_child (1/2) 3 3]
     = mset [mk_child (1/2) 3 3, mk_child (1/4) 1 1] \<and>
   successively (\<lambda>a b. \<not> MinAndCost DefaultAdapter b a)
     [mk_child (1/4) 1 1, mk_child (1/2) 3 3] \<and>
   ordered_cost_of AND DefaultAdapter [mk_child (1/4) 1 1, mk_child (1/2) 3 3]
     (AndFlow 1 False) = 7/4 \<and>
   ordered_cost_of AND DefaultAdapter
     (swap_adjacent 0 [mk_child (1/4) 1 1, mk_child (1/2) 3 3]) (AndFlow 1 False) = 7/2 \<and>
   ordered_cost_of AND DefaultAdapter [mk_child (1/4) 1 1, mk_child (1/2) 3 3]
     (AndFlow 1 False)
   \<le> ordered_cost_of AND DefaultAdapter
     (swap_adjacent 0 [mk_child (1/4) 1 1, mk_child (1/2) 3 3]) (AndFlow 1 False)"
proof -
  let ?cs = "[mk_child (1/2) 3 3, mk_child (1/4) 1 1]"
  let ?ys = "[mk_child (1/4) 1 1, mk_child (1/2) 3 3]"
  have wf: "\<forall>c\<in>set ?cs. well_formed DefaultAdapter c"
    by (simp add: well_formed_def)
  have srt: "flow_sort MinAndCost DefaultAdapter ?cs = ?ys"
    by (simp add: flow_sort_def MinAndCost_def)
  have perm: "mset ?ys = mset ?cs"
    by (simp add: add_mset_commute)
  have ord: "successively (\<lambda>a b. \<not> MinAndCost DefaultAdapter b a) ?ys"
    by (simp add: MinAndCost_def)
  have len: "Suc 0 < length ?ys" by simp
  have v: "ordered_cost_of AND DefaultAdapter ?ys (AndFlow 1 False) = 7/4"
    by (simp add: ordered_cost_of_def Let_def AndFlow_def AndFlow_add_def AndFlow_flow_def
        AndFlow_strict_def)
  have w: "ordered_cost_of AND DefaultAdapter (swap_adjacent 0 ?ys) (AndFlow 1 False) = 7/2"
    by (simp add: swap_adjacent_def ordered_cost_of_def Let_def AndFlow_def AndFlow_add_def
        AndFlow_flow_def AndFlow_strict_def)
  have "ordered_cost_of AND DefaultAdapter ?ys (AndFlow 1 False)
          \<le> ordered_cost_of AND DefaultAdapter (swap_adjacent 0 ?ys) (AndFlow 1 False)"
    by (rule min_and_cost_exchange [OF wf perm ord len])
  with wf srt perm ord v w show ?thesis by simp
qed

subsection \<open>The same exchange in binary64\<close>

text \<open>
  The model of doubles orders them as the reals they stand for, rounds to within half a
  unit of the last place, and keeps a mantissa of at most 53 bits exactly.
\<close>

lemma scaled_real:
  assumes "e \<le> e1"
  shows "real_of_int (m * 2 ^ nat (e1 - e)) * 2 powi e = of_int m * 2 powi e1"
proof -
  have "real_of_int (m * 2 ^ nat (e1 - e)) = of_int m * 2 powi (e1 - e)"
    using assms by (simp add: power_int_def)
  moreover have "(2::real) powi (e1 - e) * 2 powi e = 2 powi e1"
    by (simp flip: power_int_add)
  ultimately have "real_of_int (m * 2 ^ nat (e1 - e)) * 2 powi e
                     = of_int m * (2 powi (e1 - e) * 2 powi e)"
    by (simp only: mult.assoc)
  then show ?thesis by (simp only: \<open>(2::real) powi (e1 - e) * 2 powi e = 2 powi e1\<close>)
qed

lemma d_less_iff: "d_less a b \<longleftrightarrow> d_val a < d_val b"
proof (cases a; cases b)
  fix m1 e1 m2 e2
  assume a: "a = Dbl m1 e1" and b: "b = Dbl m2 e2"
  define e where "e = min e1 e2"
  have pos: "(0::real) < 2 powi e" by simp
  have le: "e \<le> e1" "e \<le> e2" by (simp_all add: e_def)
  have "d_val a < d_val b \<longleftrightarrow>
        real_of_int (m1 * 2 ^ nat (e1 - e)) * 2 powi e
          < real_of_int (m2 * 2 ^ nat (e2 - e)) * 2 powi e"
    unfolding a b d_val.simps scaled_real [OF le(1)] scaled_real [OF le(2)] ..
  also have "\<dots> \<longleftrightarrow> real_of_int (m1 * 2 ^ nat (e1 - e)) < real_of_int (m2 * 2 ^ nat (e2 - e))"
    using pos by (rule mult_less_cancel_right_pos)
  also have "\<dots> \<longleftrightarrow> m1 * 2 ^ nat (e1 - e) < m2 * 2 ^ nat (e2 - e)"
    by (rule of_int_less_iff)
  finally show ?thesis by (simp add: a b e_def Let_def)
qed

lemma round_to_even_nearest: "2 * \<bar>round_to_even M k * 2 ^ k - M\<bar> \<le> 2 ^ k"
proof -
  define q r where "q = M div 2 ^ k" and "r = M mod 2 ^ k"
  have M: "M = q * 2 ^ k + r"
    unfolding q_def r_def by (rule div_mult_mod_eq [symmetric])
  have r: "0 \<le> r" "r < 2 ^ k" by (simp_all add: r_def)
  have keep: "2 * \<bar>q * 2 ^ k - M\<bar> \<le> 2 ^ k" if "2 * r \<le> 2 ^ k"
    using that r by (simp add: M)
  have up: "2 * \<bar>(q + 1) * 2 ^ k - M\<bar> \<le> 2 ^ k" if "2 ^ k \<le> 2 * r"
    using that r by (simp add: M algebra_simps)
  show ?thesis
    using keep up
    by (auto simp: round_to_even_def Let_def simp flip: q_def r_def)
qed

lemma round53_exact: "bit_length \<bar>M\<bar> \<le> 53 \<Longrightarrow> round53 M E = Dbl M E"
  by (simp add: round53_def round_to_even_def)

lemma bit_length_bound: "m < 2 ^ bit_length m"
proof (induction m rule: bit_length.induct)
  case (1 m)
  show ?case
  proof (cases "m \<le> 0")
    case True
    then show ?thesis by (simp add: bit_length.simps [of m])
  next
    case False
    with 1 have "m div 2 < 2 ^ bit_length (m div 2)" by simp
    then have "m < 2 * 2 ^ bit_length (m div 2)" by linarith
    with False show ?thesis by (simp add: bit_length.simps [of m])
  qed
qed

lemma round53_mantissa:
  "round53 M E = Dbl m e \<Longrightarrow> \<bar>m\<bar> \<le> 2 ^ 53"
proof -
  assume eq: "round53 M E = Dbl m e"
  define k where "k = bit_length \<bar>M\<bar> - 53"
  have m: "m = round_to_even M k" using eq by (simp add: round53_def k_def Let_def)
  have "bit_length \<bar>M\<bar> \<le> k + 53" by (simp add: k_def)
  then have "(2::int) ^ bit_length \<bar>M\<bar> \<le> 2 ^ (k + 53)"
    by (intro power_increasing) simp_all
  with bit_length_bound [of "\<bar>M\<bar>"] have b: "\<bar>M\<bar> < 2 ^ 53 * 2 ^ k"
    by (simp add: power_add mult.commute)
  define q r where "q = M div 2 ^ k" and "r = M mod 2 ^ k"
  have M: "M = q * 2 ^ k + r"
    unfolding q_def r_def by (rule div_mult_mod_eq [symmetric])
  have r: "0 \<le> r" "r < 2 ^ k" by (simp_all add: r_def)
  have p: "(0::int) < 2 ^ k" by simp
  have b': "M < 2 ^ 53 * 2 ^ k" "- (2 ^ 53 * 2 ^ k) < M" using b by linarith+
  have "- (2 ^ 53 * 2 ^ k) < q * 2 ^ k + 2 ^ k"
    using b'(2) r M by linarith
  also have "q * 2 ^ k + 2 ^ k = (q + 1) * 2 ^ k" by (simp add: algebra_simps)
  finally have "(- (2 ^ 53)) * 2 ^ k < (q + 1) * 2 ^ k" by simp
  then have "- (2 ^ 53) < q + 1"
    using p by (simp only: mult_less_cancel_right_pos)
  then have lo: "- (2 ^ 53) \<le> M div 2 ^ k" by (simp add: q_def)
  have "q * 2 ^ k < 2 ^ 53 * 2 ^ k"
    using b'(1) r M by linarith
  then have "q < 2 ^ 53"
    using p by (simp only: mult_less_cancel_right_pos)
  then have hi: "M div 2 ^ k < 2 ^ 53" by (simp add: q_def)
  show ?thesis
    using lo hi unfolding m round_to_even_def Let_def by auto
qed


lemma binary64_literals:
  "2 * \<bar>d_val (Dbl 7205759403792794 (- 54)) - 4 / 10\<bar> \<le> 2 powi (- 54)"
  "2 * \<bar>d_val (Dbl 6079859496950170 (- 51)) - 27 / 10\<bar> \<le> 2 powi (- 51)"
  "2 * \<bar>d_val (Dbl 5404319552844595 (- 53)) - 6 / 10\<bar> \<le> 2 powi (- 53)"
  "2 * \<bar>d_val (Dbl 8106479329266893 (- 52)) - 18 / 10\<bar> \<le> 2 powi (- 52)"
  "2 * \<bar>d_val (Dbl 7701155362803548 (- 51)) - 342 / 100\<bar> \<le> 2 powi (- 51)"
  by (simp_all add: power_int_def power_divide)

text \<open>
  The claim as stated, about the cost the code computes, fails by rounding. The doubles
  of the literals 0.4, 2.7, 0.6 and 1.8 give the children \<open>a\<close> (estimate 0.4, cost 2.7)
  and \<open>b\<close> (estimate 0.6, cost 1.8). In binary64 \<open>(1 - 0.4) * 1.8\<close> and
  \<open>(1 - 0.6) * 2.7\<close> round to the same double, so neither child is less than the other
  and sorting \<open>[a, b]\<close> leaves \<open>[a, b]\<close>. The cost of \<open>[a, b]\<close> is
  \<open>7701155362803549 * 2 ^ -51\<close> (3.4200000000000004), the cost of \<open>[b, a]\<close> is
  \<open>7701155362803548 * 2 ^ -51\<close> (3.42): exchanging the two children decreases it.
\<close>

theorem min_and_cost_exchange_binary64_counterexample:
  "0 \<le> d_val (Dbl 7205759403792794 (- 54)) \<and> d_val (Dbl 7205759403792794 (- 54)) \<le> 1 \<and>
   0 \<le> d_val (Dbl 5404319552844595 (- 53)) \<and> d_val (Dbl 5404319552844595 (- 53)) \<le> 1 \<and>
   0 \<le> d_val (Dbl 6079859496950170 (- 51)) \<and> 0 \<le> d_val (Dbl 8106479329266893 (- 52)) \<and>
   \<not> MinAndCost_d (mk_dchild (Dbl 7205759403792794 (- 54)) (Dbl 6079859496950170 (- 51))) (mk_dchild (Dbl 5404319552844595 (- 53)) (Dbl 8106479329266893 (- 52))) \<and>
   \<not> MinAndCost_d (mk_dchild (Dbl 5404319552844595 (- 53)) (Dbl 8106479329266893 (- 52))) (mk_dchild (Dbl 7205759403792794 (- 54)) (Dbl 6079859496950170 (- 51))) \<and>
   std_sort MinAndCost_d [(mk_dchild (Dbl 7205759403792794 (- 54)) (Dbl 6079859496950170 (- 51))), (mk_dchild (Dbl 5404319552844595 (- 53)) (Dbl 8106479329266893 (- 52)))] = [(mk_dchild (Dbl 7205759403792794 (- 54)) (Dbl 6079859496950170 (- 51))), (mk_dchild (Dbl 5404319552844595 (- 53)) (Dbl 8106479329266893 (- 52)))] \<and>
   ordered_cost_of_d (std_sort MinAndCost_d [(mk_dchild (Dbl 7205759403792794 (- 54)) (Dbl 6079859496950170 (- 51))), (mk_dchild (Dbl 5404319552844595 (- 53)) (Dbl 8106479329266893 (- 52)))]) (AndFlow_d (Dbl 1 0) False)
     = Dbl 7701155362803549 (- 51) \<and>
   ordered_cost_of_d (swap_adjacent 0 (std_sort MinAndCost_d [(mk_dchild (Dbl 7205759403792794 (- 54)) (Dbl 6079859496950170 (- 51))), (mk_dchild (Dbl 5404319552844595 (- 53)) (Dbl 8106479329266893 (- 52)))]))
       (AndFlow_d (Dbl 1 0) False)
     = Dbl 7701155362803548 (- 51) \<and>
   d_less
     (ordered_cost_of_d (swap_adjacent 0 (std_sort MinAndCost_d [(mk_dchild (Dbl 7205759403792794 (- 54)) (Dbl 6079859496950170 (- 51))), (mk_dchild (Dbl 5404319552844595 (- 53)) (Dbl 8106479329266893 (- 52)))]))
        (AndFlow_d (Dbl 1 0) False))
     (ordered_cost_of_d (std_sort MinAndCost_d [(mk_dchild (Dbl 7205759403792794 (- 54)) (Dbl 6079859496950170 (- 51))), (mk_dchild (Dbl 5404319552844595 (- 53)) (Dbl 8106479329266893 (- 52)))]) (AndFlow_d (Dbl 1 0) False))"
proof -
  have dom: "0 \<le> d_val (Dbl 7205759403792794 (- 54)) \<and> d_val (Dbl 7205759403792794 (- 54)) \<le> 1 \<and>
   0 \<le> d_val (Dbl 5404319552844595 (- 53)) \<and> d_val (Dbl 5404319552844595 (- 53)) \<le> 1 \<and>
   0 \<le> d_val (Dbl 6079859496950170 (- 51)) \<and> 0 \<le> d_val (Dbl 8106479329266893 (- 52))"
    by (simp add: power_int_def power_divide)
  have tie: "\<not> MinAndCost_d (mk_dchild (Dbl 7205759403792794 (- 54)) (Dbl 6079859496950170 (- 51))) (mk_dchild (Dbl 5404319552844595 (- 53)) (Dbl 8106479329266893 (- 52)))" "\<not> MinAndCost_d (mk_dchild (Dbl 5404319552844595 (- 53)) (Dbl 8106479329266893 (- 52))) (mk_dchild (Dbl 7205759403792794 (- 54)) (Dbl 6079859496950170 (- 51)))"
    by code_simp+
  have srt: "std_sort MinAndCost_d [(mk_dchild (Dbl 7205759403792794 (- 54)) (Dbl 6079859496950170 (- 51))), (mk_dchild (Dbl 5404319552844595 (- 53)) (Dbl 8106479329266893 (- 52)))] = [(mk_dchild (Dbl 7205759403792794 (- 54)) (Dbl 6079859496950170 (- 51))), (mk_dchild (Dbl 5404319552844595 (- 53)) (Dbl 8106479329266893 (- 52)))]"
    using tie by simp
  have swp: "swap_adjacent 0 [(mk_dchild (Dbl 7205759403792794 (- 54)) (Dbl 6079859496950170 (- 51))), (mk_dchild (Dbl 5404319552844595 (- 53)) (Dbl 8106479329266893 (- 52)))] = [(mk_dchild (Dbl 5404319552844595 (- 53)) (Dbl 8106479329266893 (- 52))), (mk_dchild (Dbl 7205759403792794 (- 54)) (Dbl 6079859496950170 (- 51)))]"
    by (simp add: swap_adjacent_def)
  have c1: "ordered_cost_of_d [(mk_dchild (Dbl 7205759403792794 (- 54)) (Dbl 6079859496950170 (- 51))), (mk_dchild (Dbl 5404319552844595 (- 53)) (Dbl 8106479329266893 (- 52)))] (AndFlow_d (Dbl 1 0) False) = Dbl 7701155362803549 (- 51)"
    by code_simp
  have c2: "ordered_cost_of_d [(mk_dchild (Dbl 5404319552844595 (- 53)) (Dbl 8106479329266893 (- 52))), (mk_dchild (Dbl 7205759403792794 (- 54)) (Dbl 6079859496950170 (- 51)))] (AndFlow_d (Dbl 1 0) False) = Dbl 7701155362803548 (- 51)"
    by code_simp
  have lt: "d_less (Dbl 7701155362803548 (- 51)) (Dbl 7701155362803549 (- 51))"
    by simp
  show ?thesis
    unfolding srt swp c1 c2 using dom tie lt by (intro conjI) simp_all
qed

end
